theory Spec2Isabelle
  imports Complex_Main "HOL-Library.Word" "HOL-Library.AList"
begin

section \<open>The ASCII chart renderer of ccusage\<close>

text \<open>
  A shallow embedding of the chart functions \<open>drawLineGraph\<close> (file \<open>_ascii-graph.ts\<close>),
  \<open>createLineGraph\<close> (file \<open>graphs/line.ts\<close>) and \<open>createBarGraph\<close> (file
  \<open>graphs/bar.ts\<close>), and of the x-axis label selection of the \<open>daily\<close> command.

  Numbers. A JavaScript \<open>number\<close> is modelled by an exact value: data values by \<open>real\<close>,
  and the quantities that the code only ever produces through \<open>Math.round\<close>,
  \<open>Math.floor\<close>, \<open>Math.ceil\<close> or array lengths by \<open>int\<close>. The stepping loop of the line
  rasterizer is the exception: it counts with its coordinates, so there every difference
  and sum is rounded as a double rounds it (\<open>fl\<close>, 53 significant bits, ties to even),
  and from \<open>2^53\<close> on a step of one is lost. Elsewhere the rounding error of IEEE
  doubles, and everywhere \<open>NaN\<close>, the infinities and the exponent range of a double
  (magnitudes from \<open>2^1024\<close> on), are outside the model. The two places where the
  code can divide by zero on in-model inputs are explicit branches: a zero \<open>height\<close> in
  \<open>drawLineGraph\<close> (the label values become \<open>NaN\<close>; the model stops with \<open>NotANumber\<close>),
  and a zero \<open>labelCount\<close> in the x-axis label selection (the interval becomes
  \<open>Infinity\<close>; the model follows the comparisons with it).

  Strings. A JavaScript string is a sequence of UTF-16 code units, and \<open>.length\<close> counts
  code units; every glyph the renderer uses is one code unit.

  Series. The declared type of the series is \<open>number[]\<close>; the \<open>value == null\<close> guards of
  the source are unreachable under that type and are not modelled.
\<close>

subsection \<open>Strings, glyphs and errors\<close>

type_synonym cu = "16 word"
type_synonym jsstring = "cu list"

definition SPACE :: cu where "SPACE = 0x20"
definition NEWLINE :: cu where "NEWLINE = 0x0A"
definition MIDDOT :: cu where "MIDDOT = 0xB7"       \<comment> \<open>the small dot of a traced line\<close>
definition HLINE :: cu where "HLINE = 0x2500"       \<comment> \<open>box drawing, light horizontal\<close>
definition VLINE :: cu where "VLINE = 0x2502"       \<comment> \<open>box drawing, light vertical\<close>
definition TEE :: cu where "TEE = 0x2524"           \<comment> \<open>axis glyph of an unlabelled row\<close>
definition CROSS :: cu where "CROSS = 0x253C"       \<comment> \<open>axis glyph of a labelled row, and of the baseline\<close>
definition DIAG_UP :: cu where "DIAG_UP = 0x2571"   \<comment> \<open>box drawing, diagonal rising to the right\<close>
definition DIAG_DOWN :: cu where "DIAG_DOWN = 0x2572" \<comment> \<open>box drawing, diagonal falling to the right\<close>
definition BLOCK :: cu where "BLOCK = 0x2588"       \<comment> \<open>full block of a bar\<close>
definition BULLET :: cu where "BULLET = 0x25CF"     \<comment> \<open>big dot of a data point\<close>

datatype error =
    TypeError     \<comment> \<open>a property of \<open>undefined\<close> is read or written\<close>
  | RangeError    \<comment> \<open>\<open>String.prototype.repeat\<close> with a negative count\<close>
  | NotANumber    \<comment> \<open>the code divides by zero; the model does not follow \<open>NaN\<close>\<close>

record GraphOptions =
  width :: int
  height :: int
  padding :: jsstring               \<comment> \<open>after the default \<open>''\<close> has been applied\<close>
  format :: "real \<Rightarrow> jsstring"       \<comment> \<open>after the default formatter has been applied\<close>

subsection \<open>The library functions the renderer calls\<close>

definition js_round :: "real \<Rightarrow> int" where
  \<comment> \<open>\<open>Math.round\<close>: the nearest integer, a tie going up\<close>
  "js_round v = \<lfloor>v + 1 / 2\<rfloor>"

definition js_repeat :: "jsstring \<Rightarrow> int \<Rightarrow> error + jsstring" where
  "js_repeat s n = (if n < 0 then Inl RangeError else Inr (concat (replicate (nat n) s)))"

definition padStart :: "jsstring \<Rightarrow> int \<Rightarrow> jsstring" where
  \<comment> \<open>\<open>s.padStart(n)\<close>, the fill string being one space\<close>
  "padStart s n = (if n \<le> int (length s) then s else replicate (nat n - length s) SPACE @ s)"

fun join_nl :: "jsstring list \<Rightarrow> jsstring" where
  \<comment> \<open>\<open>lines.join('\n')\<close>\<close>
  "join_nl [] = []"
| "join_nl [l] = l"
| "join_nl (l # ls) = l @ NEWLINE # join_nl ls"



subsection \<open>The canvas\<close>

text \<open>
  A canvas row is a JavaScript array of one-character strings. An assignment \<open>row[x] = v\<close>
  stores an element when \<open>0 \<le> x < row.length\<close>; with \<open>x \<ge> row.length\<close> it lengthens the
  array, leaving holes; with \<open>x < 0\<close> it sets a property that is no element of the array
  and that \<open>join\<close> does not see. A hole is modelled by the empty string: it joins as the
  empty string and is different from \<open>' '\<close>, which is all this code can observe of it.
\<close>

record jsarray =
  elems :: "jsstring list"
  props :: "(int \<times> jsstring) list"     \<comment> \<open>the properties set at negative indices\<close>

type_synonym canvas = "jsarray list"

definition new_canvas :: "int \<Rightarrow> int \<Rightarrow> canvas" where
  \<comment> \<open>\<open>Array.from({ length: height + 1 }, () => Array.from({ length: width }, () => ' '))\<close>;
      a negative length gives the empty array\<close>
  "new_canvas w h = replicate (nat (h + 1)) \<lparr>elems = replicate (nat w) [SPACE], props = []\<rparr>"

definition arr_get :: "jsarray \<Rightarrow> int \<Rightarrow> jsstring option" where
  \<comment> \<open>\<open>row[x]\<close>; \<open>None\<close> is \<open>undefined\<close>\<close>
  "arr_get a x =
     (if x < 0 then map_of (props a) x
      else if x < int (length (elems a)) then Some (elems a ! nat x) else None)"

definition arr_set :: "jsarray \<Rightarrow> int \<Rightarrow> jsstring \<Rightarrow> jsarray" where
  \<comment> \<open>\<open>row[x] = v\<close>\<close>
  "arr_set a x v =
     (if x < 0 then a\<lparr>props := AList.update x v (props a)\<rparr>
      else if x < int (length (elems a)) then a\<lparr>elems := (elems a)[nat x := v]\<rparr>
      else a\<lparr>elems := elems a @ replicate (nat x - length (elems a)) [] @ [v]\<rparr>)"

definition arr_join :: "jsarray \<Rightarrow> jsstring" where
  \<comment> \<open>\<open>row.join('')\<close>\<close>
  "arr_join a = concat (elems a)"

definition canvas_row :: "canvas \<Rightarrow> int \<Rightarrow> jsarray option" where
  \<comment> \<open>\<open>canvas[y]\<close>; \<open>None\<close> is \<open>undefined\<close>\<close>
  "canvas_row c y = (if 0 \<le> y \<and> y < int (length c) then Some (c ! nat y) else None)"

definition set_in_row :: "canvas \<Rightarrow> int \<Rightarrow> jsarray \<Rightarrow> int \<Rightarrow> jsstring \<Rightarrow> canvas" where
  \<comment> \<open>\<open>canvasRow[x] = v\<close>, where \<open>canvasRow\<close> is the row object \<open>canvas[y]\<close>\<close>
  "set_in_row c y canvasRow x v = c[nat y := arr_set canvasRow x v]"

subsection \<open>Integers as doubles\<close>

function drop_bits :: "int \<Rightarrow> nat" where
  \<comment> \<open>how many low bits a magnitude has beyond the 53 significant bits of a double\<close>
  "drop_bits m = (if m < 2 ^ 53 then 0 else Suc (drop_bits (m div 2)))"
  by pat_completeness auto
termination
  by (relation "measure nat") auto

declare drop_bits.simps [simp del]

definition fl :: "int \<Rightarrow> int" where
  \<comment> \<open>the double nearest to an integer, a tie going to the even significand; the result
      of a sum or difference of integer-valued doubles is \<open>fl\<close> of the exact result\<close>
  "fl n =
     (let m = \<bar>n\<bar>;
          e = drop_bits m;
          q = m div 2 ^ e;
          r = m mod 2 ^ e;
          q' = (if 2 * r > 2 ^ e \<or> (2 * r = 2 ^ e \<and> odd q) then q + 1 else q)
      in sgn n * (q' * 2 ^ e))"

subsection \<open>The Bresenham stepping loop\<close>

text \<open>
  The \<open>while (true)\<close> loop of \<open>drawLine\<close> and of \<open>createLineGraph\<close>. The two copies differ
  only in what they do at a cell, which is the parameter \<open>plot\<close>, acting on a state
  (the canvas in both copies). A loop that never reaches
  its \<open>break\<close> has the value \<open>None\<close>; an exception raised at a cell leaves the loop.
  The coordinates and the accumulator are doubles that hold integers: \<open>err -= dy\<close>,
  \<open>x += sx\<close>, \<open>err += dx\<close> and \<open>y += sy\<close> round their results; \<open>2 * err\<close> is exact.
\<close>

partial_function (option) bres_loop ::
  "(int \<Rightarrow> int \<Rightarrow> 'c \<Rightarrow> error + 'c) \<Rightarrow> int \<Rightarrow> int \<Rightarrow> int \<Rightarrow> int \<Rightarrow> int \<Rightarrow> int
     \<Rightarrow> int \<Rightarrow> int \<Rightarrow> int \<Rightarrow> 'c \<Rightarrow> (error + 'c) option" where
  "bres_loop plot dx dy sx sy x2 y2 x y err c =
     (case plot x y c of
        Inl e \<Rightarrow> Some (Inl e)
      | Inr c' \<Rightarrow>
          if x = x2 \<and> y = y2 then Some (Inr c')
          else (let e2 = 2 * err;
                    err1 = (if e2 > - dy then fl (err - dy) else err);
                    x' = (if e2 > - dy then fl (x + sx) else x);
                    err2 = (if e2 < dx then fl (err1 + dx) else err1);
                    y' = (if e2 < dx then fl (y + sy) else y)
                in bres_loop plot dx dy sx sy x2 y2 x' y' err2 c'))"

definition bresenham ::
  "(int \<Rightarrow> int \<Rightarrow> int \<Rightarrow> int \<Rightarrow> int \<Rightarrow> int \<Rightarrow> 'c \<Rightarrow> error + 'c)
     \<Rightarrow> int \<Rightarrow> int \<Rightarrow> int \<Rightarrow> int \<Rightarrow> 'c \<Rightarrow> (error + 'c) option" where
  \<comment> \<open>the end points are the doubles the caller has computed: an integer that no double
      holds stands for the double nearest to it\<close>
  "bresenham plot x1' y1' x2' y2' c =
     (let x1 = fl x1'; y1 = fl y1'; x2 = fl x2'; y2 = fl y2';
          dx = \<bar>fl (x2 - x1)\<bar>;
          dy = \<bar>fl (y2 - y1)\<bar>;
          sx = (if x1 < x2 then 1 else - 1);
          sy = (if y1 < y2 then 1 else - 1);
          err = fl (dx - dy)
      in bres_loop (plot dx dy sx sy) dx dy sx sy x2 y2 x1 y1 err c)"

declare bres_loop.simps [code]

subsection \<open>drawLineGraph: tight domain, directional glyphs\<close>

definition combineChars :: "jsstring option \<Rightarrow> jsstring \<Rightarrow> jsstring" where
  "combineChars char1 char2 =
     (let horizontal = [[HLINE], [DIAG_UP], [DIAG_DOWN]];
          vertical = [[VLINE], [DIAG_UP], [DIAG_DOWN]]
      in if char1 \<in> set (map Some horizontal) \<and> char2 \<in> set vertical then [CROSS]
         else if char1 \<in> set (map Some vertical) \<and> char2 \<in> set horizontal then [CROSS]
         else char2)"

definition lineChar :: "int \<Rightarrow> int \<Rightarrow> int \<Rightarrow> int \<Rightarrow> jsstring" where
  "lineChar dx dy sx sy =
     (if dx = 0 then [VLINE]
      else if dy = 0 then [HLINE]
      else if (sx = 1 \<and> sy = 1) \<or> (sx = - 1 \<and> sy = - 1) then [DIAG_DOWN]
      else [DIAG_UP])"

definition drawLine_plot :: "int \<Rightarrow> int \<Rightarrow> int \<Rightarrow> int \<Rightarrow> int \<Rightarrow> int \<Rightarrow> canvas \<Rightarrow> error + canvas" where
  \<comment> \<open>the guarded block at the head of the loop of \<open>drawLine\<close>; \<open>grid[0].length\<close> is read
      only when \<open>x >= 0\<close> holds\<close>
  "drawLine_plot dx dy sx sy x y grid =
     (if x \<ge> 0 then
        (case canvas_row grid 0 of
           None \<Rightarrow> Inl TypeError
         | Some row0 \<Rightarrow>
             if x < int (length (elems row0)) \<and> y \<ge> 0 \<and> y < int (length grid) then
               (case canvas_row grid y of
                  None \<Rightarrow> Inl TypeError
                | Some gridRow \<Rightarrow>
                    (let prevChar = arr_get gridRow x;
                         char = lineChar dx dy sx sy;
                         char' = (if prevChar \<noteq> Some [SPACE] then combineChars prevChar char else char)
                     in Inr (set_in_row grid y gridRow x char')))
             else Inr grid)
      else Inr grid)"

definition drawLine :: "canvas \<Rightarrow> int \<Rightarrow> int \<Rightarrow> int \<Rightarrow> int \<Rightarrow> (error + canvas) option" where
  "drawLine grid x1 y1 x2 y2 = bresenham drawLine_plot x1 y1 x2 y2 grid"

fun drawLines :: "(int \<times> int) list \<Rightarrow> canvas \<Rightarrow> (error + canvas) option" where
  \<comment> \<open>the second pass: a line between every two consecutive plot points\<close>
  "drawLines (p1 # p2 # ps) grid =
     (case drawLine grid (fst p1) (snd p1) (fst p2) (snd p2) of
        None \<Rightarrow> None
      | Some (Inl e) \<Rightarrow> Some (Inl e)
      | Some (Inr grid') \<Rightarrow> drawLines (p2 # ps) grid')"
| "drawLines ps grid = Some (Inr grid)"

definition tight_min :: "real list \<Rightarrow> real" where
  "tight_min data = Min (set data)"

definition tight_max :: "real list \<Rightarrow> real" where
  "tight_max data = Max (set data)"

definition tight_range :: "real list \<Rightarrow> real" where
  \<comment> \<open>\<open>max - min || 1\<close>\<close>
  "tight_range data =
     (if tight_max data - tight_min data = 0 then 1 else tight_max data - tight_min data)"

definition xStep :: "real list \<Rightarrow> int \<Rightarrow> real" where
  \<comment> \<open>\<open>(width - 1) / (data.length - 1)\<close>, on a series of at least two values\<close>
  "xStep data w = real_of_int (w - 1) / real_of_int (int (length data) - 1)"

definition colOf :: "real list \<Rightarrow> int \<Rightarrow> nat \<Rightarrow> int" where
  \<comment> \<open>\<open>Math.round(i * xStep)\<close>\<close>
  "colOf data w i = js_round (real i * xStep data w)"

definition plotPoints :: "real list \<Rightarrow> int \<Rightarrow> int \<Rightarrow> (int \<times> int) list" where
  "plotPoints data w h =
     map (\<lambda>i. let x = colOf data w i;
                   normalizedValue = (data ! i - tight_min data) / tight_range data;
                   y = js_round (real_of_int h - normalizedValue * real_of_int h)
               in (x, y))
         [0..<length data]"

definition tight_yLabel :: "real list \<Rightarrow> int \<Rightarrow> int \<Rightarrow> real" where
  \<comment> \<open>\<open>max - (i / height) * range\<close>\<close>
  "tight_yLabel data h i =
     tight_max data - (real_of_int i / real_of_int h) * tight_range data"

definition drawLineGraph_row :: "real list \<Rightarrow> GraphOptions \<Rightarrow> canvas \<Rightarrow> int \<Rightarrow> error + jsstring" where
  "drawLineGraph_row data opts grid i =
     (let formattedLabel =
            padStart (format opts (tight_yLabel data (height opts) i)) (int (length (padding opts)) - 2);
          rowChar = (if i = height opts then CROSS else TEE)
      in case canvas_row grid i of
           None \<Rightarrow> Inl TypeError
         | Some gridRow \<Rightarrow> Inr (formattedLabel @ [SPACE] @ [rowChar] @ arr_join gridRow))"

fun collect :: "(error + 'a) list \<Rightarrow> error + 'a list" where
  \<comment> \<open>the results of the iterations of a loop, up to the first exception\<close>
  "collect [] = Inr []"
| "collect (Inl e # rs) = Inl e"
| "collect (Inr v # rs) = (case collect rs of Inl e \<Rightarrow> Inl e | Inr vs \<Rightarrow> Inr (v # vs))"

definition drawLineGraph :: "real list \<Rightarrow> GraphOptions \<Rightarrow> (error + jsstring) option" where
  \<comment> \<open>with \<open>height = 0\<close> the label value \<open>max - (0 / 0) * range\<close> is \<open>NaN\<close>, which the model
      does not follow\<close>
  "drawLineGraph data opts =
     (if length data = 0 then Some (Inr [])
      else if length data = 1 then
        Some (case js_repeat [HLINE] (width opts) of
                Inl e \<Rightarrow> Inl e
              | Inr rule \<Rightarrow> Inr (padding opts @ format opts (data ! 0) @ [SPACE] @ [CROSS] @ rule))
      else if height opts = 0 then Some (Inl NotANumber)
      else
        (case drawLines (plotPoints data (width opts) (height opts))
                (new_canvas (width opts) (height opts)) of
           None \<Rightarrow> None
         | Some (Inl e) \<Rightarrow> Some (Inl e)
         | Some (Inr grid) \<Rightarrow>
             Some (case collect (map (drawLineGraph_row data opts grid) [0..height opts]) of
                     Inl e \<Rightarrow> Inl e
                   | Inr lines \<Rightarrow> Inr (join_nl lines))))"

subsection \<open>The zero-based stepped domain\<close>

definition yAxisStep :: int where
  "yAxisStep = 20"

definition dataMax :: "real list \<Rightarrow> real" where
  \<comment> \<open>\<open>Math.max(...data)\<close> on a non-empty series\<close>
  "dataMax data = Max (set data)"

definition yAxisMax :: "real list \<Rightarrow> int" where
  "yAxisMax data = \<lceil>dataMax data / real_of_int yAxisStep\<rceil> * yAxisStep"

definition yMax :: "real list \<Rightarrow> int" where
  "yMax data = (if yAxisMax data = 0 then yAxisStep else yAxisMax data)"

definition yMin :: int where
  "yMin = 0"

definition yRange :: "real list \<Rightarrow> int" where
  "yRange data = yMax data - yMin"

definition rowOf :: "real list \<Rightarrow> int \<Rightarrow> real \<Rightarrow> int" where
  \<comment> \<open>\<open>Math.round(height - ((value - yMin) / yRange) * height)\<close>\<close>
  "rowOf data h v =
     js_round (real_of_int h - ((v - real_of_int yMin) / real_of_int (yRange data)) * real_of_int h)"

subsection \<open>The y-axis labels and the output rows of the stepped renderers\<close>

function tickValues :: "int \<Rightarrow> int \<Rightarrow> int list" where
  \<comment> \<open>the values of \<open>for (value = yMin; value <= yMax; value += yAxisStep)\<close>\<close>
  "tickValues v ymax = (if v \<le> ymax then v # tickValues (v + yAxisStep) ymax else [])"
  by pat_completeness auto
termination
  by (relation "measure (\<lambda>(v, ymax). nat (ymax - v + 1))") (auto simp: yAxisStep_def)

definition yLabels_step :: "real list \<Rightarrow> GraphOptions \<Rightarrow> int \<Rightarrow> (int \<times> jsstring) list \<Rightarrow> (int \<times> jsstring) list" where
  \<comment> \<open>one tick: \<open>yLabels.set(y, format(value))\<close> when the row is on the canvas; a \<open>Map\<close>
      keeps its keys in insertion order and \<open>set\<close> replaces the value of a key it has\<close>
  "yLabels_step data opts v m =
     (let y = rowOf data (height opts) (real_of_int v)
      in if y \<ge> 0 \<and> y \<le> height opts then AList.update y (format opts (real_of_int v)) m else m)"

definition yLabels :: "real list \<Rightarrow> GraphOptions \<Rightarrow> (int \<times> jsstring) list" where
  "yLabels data opts = fold (yLabels_step data opts) (tickValues yMin (yMax data)) []"

definition maxLabelWidth :: "(int \<times> jsstring) list \<Rightarrow> int" where
  "maxLabelWidth m =
     (let allLabelValues = map snd m
      in if length allLabelValues > 0 then Max (set (map (\<lambda>l. int (length l)) allLabelValues)) else 0)"

definition graph_line :: "GraphOptions \<Rightarrow> (int \<times> jsstring) list \<Rightarrow> canvas \<Rightarrow> int \<Rightarrow> jsstring" where
  \<comment> \<open>the body of the loop under \<open>Build each line\<close>, the same in both renderers\<close>
  "graph_line opts m c y =
     (let labelValue = map_of m y;
          label = padStart (case labelValue of None \<Rightarrow> [] | Some l \<Rightarrow> l) (maxLabelWidth m);
          axisChar = (if labelValue \<noteq> None then CROSS else TEE);
          finalAxisChar = (if y = height opts then CROSS else axisChar);
          canvasRow = canvas_row c y
      in padding opts @ label @ [SPACE] @ [finalAxisChar]
           @ (case canvasRow of None \<Rightarrow> [] | Some r \<Rightarrow> arr_join r))"

definition graph_lines :: "real list \<Rightarrow> GraphOptions \<Rightarrow> canvas \<Rightarrow> jsstring list" where
  "graph_lines data opts c = map (graph_line opts (yLabels data opts) c) [0..height opts]"

subsection \<open>createLineGraph: stepped domain, uniform glyph, point markers\<close>

definition line_plot :: "int \<Rightarrow> int \<Rightarrow> int \<Rightarrow> int \<Rightarrow> int \<Rightarrow> int \<Rightarrow> int \<Rightarrow> int \<Rightarrow> canvas \<Rightarrow> error + canvas" where
  \<comment> \<open>the guarded block at the head of the loop of \<open>createLineGraph\<close>: first write wins\<close>
  "line_plot w h dx dy sx sy x y c =
     Inr (if x \<ge> 0 \<and> x < w \<and> y \<ge> 0 \<and> y \<le> h then
            (case canvas_row c y of
               None \<Rightarrow> c
             | Some canvasRow \<Rightarrow>
                 if arr_get canvasRow x = Some [SPACE] then set_in_row c y canvasRow x [MIDDOT] else c)
          else c)"

fun line_segments :: "real list \<Rightarrow> GraphOptions \<Rightarrow> nat list \<Rightarrow> canvas \<Rightarrow> (error + canvas) option" where
  \<comment> \<open>the loop under \<open>First, draw connecting lines between points\<close>, over the indices it is given\<close>
  "line_segments data opts [] c = Some (Inr c)"
| "line_segments data opts (i # is) c =
     (let x1 = colOf data (width opts) i;
          x2 = colOf data (width opts) (i + 1);
          y1 = rowOf data (height opts) (data ! i);
          y2 = rowOf data (height opts) (data ! (i + 1))
      in case bresenham (line_plot (width opts) (height opts)) x1 y1 x2 y2 c of
           None \<Rightarrow> None
         | Some (Inl e) \<Rightarrow> Some (Inl e)
         | Some (Inr c') \<Rightarrow> line_segments data opts is c')"

definition line_point :: "real list \<Rightarrow> GraphOptions \<Rightarrow> nat \<Rightarrow> canvas \<Rightarrow> canvas" where
  \<comment> \<open>the body of the loop under \<open>Then, plot the actual data points on top\<close>\<close>
  "line_point data opts i c =
     (let x = colOf data (width opts) i;
          y = rowOf data (height opts) (data ! i)
      in if y \<ge> 0 \<and> y \<le> height opts \<and> x \<ge> 0 \<and> x < width opts then
           (case canvas_row c y of None \<Rightarrow> c | Some r \<Rightarrow> set_in_row c y r x [BULLET])
         else c)"

definition createLineGraph_canvas :: "real list \<Rightarrow> GraphOptions \<Rightarrow> (error + canvas) option" where
  \<comment> \<open>the canvas of a series of at least two values, after both drawing loops\<close>
  "createLineGraph_canvas data opts =
     (case line_segments data opts [0..<length data - 1] (new_canvas (width opts) (height opts)) of
        None \<Rightarrow> None
      | Some (Inl e) \<Rightarrow> Some (Inl e)
      | Some (Inr c) \<Rightarrow> Some (Inr (fold (line_point data opts) [0..<length data] c)))"

definition createLineGraph :: "real list \<Rightarrow> GraphOptions \<Rightarrow> (error + jsstring) option" where
  "createLineGraph data opts =
     (if length data = 0 then Some (Inr [])
      else if length data = 1 then
        Some (case js_repeat [HLINE] (width opts - 1) of
                Inl e \<Rightarrow> Inl e
              | Inr rule \<Rightarrow>
                  Inr (padding opts @ format opts (data ! 0) @ [SPACE] @ [CROSS] @ rule @ [BULLET]))
      else
        (case createLineGraph_canvas data opts of
           None \<Rightarrow> None
         | Some (Inl e) \<Rightarrow> Some (Inl e)
         | Some (Inr c) \<Rightarrow> Some (Inr (join_nl (graph_lines data opts c)))))"

subsection \<open>createBarGraph: stepped domain, filled bars, value labels\<close>

definition availableWidth :: "int \<Rightarrow> int" where
  "availableWidth w = w - 2"

definition barAreaWidth :: "real list \<Rightarrow> int \<Rightarrow> int" where
  "barAreaWidth data w = \<lfloor>real_of_int (availableWidth w) / real (length data)\<rfloor>"

definition barWidth :: "real list \<Rightarrow> int \<Rightarrow> int" where
  "barWidth data w = max 1 \<lfloor>real_of_int (barAreaWidth data w) * (8 / 10)\<rfloor>"

definition spacing :: "real list \<Rightarrow> int \<Rightarrow> int" where
  "spacing data w = max 1 \<lfloor>real_of_int (barAreaWidth data w - barWidth data w) / 2\<rfloor>"

definition barHeight :: "real list \<Rightarrow> int \<Rightarrow> real \<Rightarrow> int" where
  \<comment> \<open>\<open>Math.round(normalizedValue * height)\<close>\<close>
  "barHeight data h v =
     js_round (((v - real_of_int yMin) / real_of_int (yRange data)) * real_of_int h)"

definition barStart :: "real list \<Rightarrow> int \<Rightarrow> nat \<Rightarrow> int" where
  "barStart data w i = 1 + int i * barAreaWidth data w + spacing data w"

definition barEnd :: "real list \<Rightarrow> int \<Rightarrow> nat \<Rightarrow> int" where
  "barEnd data w i = min (barStart data w i + barWidth data w) w"

definition fill_cell :: "int \<Rightarrow> int \<Rightarrow> int \<Rightarrow> canvas \<Rightarrow> canvas" where
  \<comment> \<open>the body of the inner loop of \<open>Draw the bar from bottom up\<close>\<close>
  "fill_cell w y x c =
     (if x < w then (case canvas_row c y of None \<Rightarrow> c | Some r \<Rightarrow> set_in_row c y r x [BLOCK])
      else c)"

definition fill_bar :: "real list \<Rightarrow> GraphOptions \<Rightarrow> nat \<Rightarrow> canvas \<Rightarrow> canvas" where
  \<comment> \<open>\<open>for (y = height; y > height - barHeight; y--) for (x = barStart; x < barEnd; x++)\<close>\<close>
  "fill_bar data opts i c =
     (let bh = barHeight data (height opts) (data ! i)
      in fold (\<lambda>y. fold (fill_cell (width opts) y)
                       [barStart data (width opts) i..barEnd data (width opts) i - 1])
           (rev [height opts - bh + 1..height opts]) c)"

definition valueX :: "real list \<Rightarrow> GraphOptions \<Rightarrow> nat \<Rightarrow> int" where
  \<comment> \<open>\<open>barStart + Math.floor((barWidth - valueStr.length) / 2)\<close>\<close>
  "valueX data opts i =
     barStart data (width opts) i
       + \<lfloor>real_of_int (barWidth data (width opts) - int (length (format opts (data ! i)))) / 2\<rfloor>"

definition valueY :: "real list \<Rightarrow> GraphOptions \<Rightarrow> nat \<Rightarrow> int" where
  "valueY data opts i = height opts - barHeight data (height opts) (data ! i)"

definition label_char :: "int \<Rightarrow> int \<Rightarrow> int \<Rightarrow> jsstring \<Rightarrow> nat \<Rightarrow> canvas \<Rightarrow> canvas" where
  \<comment> \<open>the body of the loop over the characters of \<open>valueStr\<close>\<close>
  "label_char w vy vx valueStr j c =
     (if vx + int j < w then
        (case canvas_row c vy of
           None \<Rightarrow> c
         | Some r \<Rightarrow> set_in_row c vy r (vx + int j) [valueStr ! j])
      else c)"

definition bar_label :: "real list \<Rightarrow> GraphOptions \<Rightarrow> nat \<Rightarrow> canvas \<Rightarrow> canvas" where
  \<comment> \<open>the block under \<open>Optionally add value on top of bar if there's space\<close>\<close>
  "bar_label data opts i c =
     (if barHeight data (height opts) (data ! i) < height opts - 1 then
        (let valueStr = format opts (data ! i);
             vy = valueY data opts i;
             vx = valueX data opts i
         in if vy \<ge> 0 \<and> vx \<ge> 0 \<and> vx + int (length valueStr) \<le> width opts
            then fold (label_char (width opts) vy vx valueStr) [0..<length valueStr] c
            else c)
      else c)"

definition draw_bar :: "real list \<Rightarrow> GraphOptions \<Rightarrow> nat \<Rightarrow> canvas \<Rightarrow> canvas" where
  \<comment> \<open>the body of the loop under \<open>Draw bars\<close>\<close>
  "draw_bar data opts i c = bar_label data opts i (fill_bar data opts i c)"

definition createBarGraph_canvas :: "real list \<Rightarrow> GraphOptions \<Rightarrow> canvas" where
  "createBarGraph_canvas data opts =
     fold (draw_bar data opts) [0..<length data] (new_canvas (width opts) (height opts))"

definition createBarGraph :: "real list \<Rightarrow> GraphOptions \<Rightarrow> jsstring" where
  \<comment> \<open>no statement of \<open>createBarGraph\<close> can throw and every loop of it is bounded\<close>
  "createBarGraph data opts =
     (if length data = 0 then []
      else join_nl (graph_lines data opts (createBarGraph_canvas data opts)))"

subsection \<open>The x-axis label selection of the daily command\<close>

text \<open>
  The loop \<open>for (i = labelInterval; i < dataPoints - 1; i += labelInterval)\<close>. With a
  step that is not positive it never ends, which is the value \<open>None\<close>.
\<close>

partial_function (option) intermediate :: "int \<Rightarrow> int \<Rightarrow> int \<Rightarrow> int list \<Rightarrow> int list option" where
  "intermediate labelInterval dataPoints i sel =
     (if i < dataPoints - 1
      then intermediate labelInterval dataPoints (i + labelInterval) (sel @ [i])
      else Some sel)"

definition pushLast :: "int \<Rightarrow> int \<Rightarrow> int list \<Rightarrow> int list" where
  \<comment> \<open>the block under \<open>Always show last date if not too close to previous\<close>\<close>
  "pushLast labelInterval dataPoints sel =
     (let lastIndex = dataPoints - 1 in
      if dataPoints > 1
      then (let lastSelectedIndex = last sel in
            if real_of_int (lastIndex - lastSelectedIndex) \<ge> real_of_int labelInterval / 2
               \<or> length sel = 1
            then sel @ [lastIndex] else sel)
      else sel)"

definition selectedIndices :: "int \<Rightarrow> int \<Rightarrow> int list option" where
  \<comment> \<open>\<open>dataPoints\<close> is the length of a non-empty array, and \<open>graphWidth\<close> is at least 60 at
      the call site, so that \<open>labelCount\<close> is positive there; with \<open>labelCount = 0\<close> the
      quotient is \<open>Infinity\<close>, the loop body never runs and the half-interval test is false\<close>
  "selectedIndices dataPoints graphWidth =
     (let minLabelSpacing = 10;
          maxLabels = \<lfloor>real_of_int graphWidth / real_of_int minLabelSpacing\<rfloor>;
          labelCount = min maxLabels dataPoints
      in if labelCount = 0
         then Some (if dataPoints > 1 then [0, dataPoints - 1] else [0])
         else (let labelInterval = \<lceil>real_of_int dataPoints / real_of_int labelCount\<rceil> in
               case intermediate labelInterval dataPoints labelInterval [0] of
                 None \<Rightarrow> None
               | Some sel \<Rightarrow> Some (pushLast labelInterval dataPoints sel)))"

definition graphWidth_of :: "int \<Rightarrow> int" where
  \<comment> \<open>\<open>Math.max(60, terminalWidth - 12)\<close>\<close>
  "graphWidth_of terminalWidth = max 60 (terminalWidth - 12)"

subsection \<open>Instruments for stating the properties\<close>

definition visit :: "int \<Rightarrow> int \<Rightarrow> int \<Rightarrow> int \<Rightarrow> int \<Rightarrow> int \<Rightarrow> (int \<times> int) list \<Rightarrow> error + (int \<times> int) list" where
  \<comment> \<open>a plot action that records the cells the stepping loop visits, in order\<close>
  "visit dx dy sx sy x y t = Inr (t @ [(x, y)])"

definition no_stray :: "canvas \<Rightarrow> bool" where
  \<comment> \<open>no row has received an assignment at a negative index\<close>
  "no_stray c \<longleftrightarrow> (\<forall>r \<in> set c. props r = [])"

definition cell :: "canvas \<Rightarrow> int \<Rightarrow> int \<Rightarrow> jsstring option" where
  \<comment> \<open>what \<open>canvas[y]?.[x]\<close> reads\<close>
  "cell c y x = (case canvas_row c y of None \<Rightarrow> None | Some r \<Rightarrow> arr_get r x)"

definition label_fits :: "real list \<Rightarrow> GraphOptions \<Rightarrow> nat \<Rightarrow> bool" where
  \<comment> \<open>the two conditions of \<open>createBarGraph\<close> under which the value label of bar \<open>i\<close> is
      written, and the existence of the row \<open>canvas[valueY]\<close>\<close>
  "label_fits data opts i \<longleftrightarrow>
     barHeight data (height opts) (data ! i) < height opts - 1
     \<and> valueY data opts i \<ge> 0 \<and> valueX data opts i \<ge> 0
     \<and> valueX data opts i + int (length (format opts (data ! i))) \<le> width opts
     \<and> valueY data opts i \<le> height opts"


fun decimal :: "nat \<Rightarrow> jsstring" where
  "decimal n = (if n < 10 then [0x30 + of_nat n] else decimal (n div 10) @ [0x30 + of_nat (n mod 10)])"

declare decimal.simps [simp del]

definition dollars :: "real \<Rightarrow> jsstring" where
  \<comment> \<open>a formatter for the examples: the caller's \<open>`$${v.toFixed(0)}`\<close> on values that are
      not negative\<close>
  "dollars v = 0x24 # decimal (nat (js_round v))"

definition example_options :: "int \<Rightarrow> int \<Rightarrow> jsstring \<Rightarrow> GraphOptions" where
  "example_options w h p = \<lparr>width = w, height = h, padding = p, format = dollars\<rparr>"

definition in_range :: "int \<Rightarrow> bool" where
  \<comment> \<open>a coordinate small enough for every sum and difference of the stepping loop to be exact\<close>
  "in_range n \<longleftrightarrow> \<bar>n\<bar> \<le> 2 ^ 51"

definition points_in_range :: "real list \<Rightarrow> GraphOptions \<Rightarrow> bool" where
  \<comment> \<open>the columns and rows of all data points of \<open>createLineGraph\<close> are in that range\<close>
  "points_in_range data opts \<longleftrightarrow>
     list_all (\<lambda>i. in_range (colOf data (width opts) i)
                    \<and> in_range (rowOf data (height opts) (data ! i)))
       [0..<length data]"

definition canvas_inv :: "(jsstring \<Rightarrow> bool) \<Rightarrow> int \<Rightarrow> int \<Rightarrow> canvas \<Rightarrow> bool" where
  \<comment> \<open>the canvas has \<open>h + 1\<close> rows of \<open>w\<close> cells, and every cell satisfies \<open>P\<close>\<close>
  "canvas_inv P w h c \<longleftrightarrow>
     length c = nat (h + 1)
     \<and> (\<forall>r \<in> set c. length (elems r) = nat w \<and> (\<forall>s \<in> set (elems r). P s))"

section \<open>Properties\<close>


lemma example_options_sel [simp]:
  "width (example_options w h p) = w" "height (example_options w h p) = h"
  "padding (example_options w h p) = p" "format (example_options w h p) = dollars"
  by (simp_all add: example_options_def)

subsection \<open>The stepped domain\<close>

lemma yMax_nonzero: "yMax data \<noteq> 0"
  by (simp add: yMax_def yAxisStep_def)

text \<open>
  Claim C4. Under the zero-based stepped domain policy of \<open>createLineGraph\<close> and
  \<open>createBarGraph\<close>, for a series of at least two values: \<open>yMin\<close> is 0, \<open>yMax\<close> is the data
  maximum divided by 20, rounded up, times 20, except that it is 20 when that product is 0,
  which is the case when the data maximum is 0; so neither \<open>yMax\<close> nor the divisor
  \<open>yRange\<close> is ever 0.
\<close>

theorem stepped_domain_yMax:
  assumes "2 \<le> length data"
  shows "yMin = 0
    \<and> yMax data = (if \<lceil>Max (set data) / 20\<rceil> * 20 = 0 then 20 else \<lceil>Max (set data) / 20\<rceil> * 20)
    \<and> (Max (set data) = 0 \<longrightarrow> yMax data = 20)
    \<and> yMax data \<noteq> 0
    \<and> yRange data \<noteq> 0"
proof -
  have "yMax data = (if \<lceil>Max (set data) / 20\<rceil> * 20 = 0 then 20 else \<lceil>Max (set data) / 20\<rceil> * 20)"
    by (simp add: yMax_def yAxisMax_def yAxisStep_def dataMax_def)
  moreover have "Max (set data) = 0 \<longrightarrow> yMax data = 20"
    by (simp add: yMax_def yAxisMax_def yAxisStep_def dataMax_def)
  moreover have "yRange data \<noteq> 0"
    using yMax_nonzero [of data] by (simp add: yRange_def yMin_def)
  ultimately show ?thesis
    using yMax_nonzero [of data] by (simp add: yMin_def)
qed

theorem stepped_domain_yMax_witness:
  "2 \<le> length [0, 0 :: real] \<and> yMax [0, 0] = 20 \<and> yRange [0, 0] \<noteq> 0"
  using stepped_domain_yMax [of "[0, 0]"] by simp

subsection \<open>Doubles that hold small integers\<close>

lemma fl_id:
  assumes "\<bar>n\<bar> \<le> 2 ^ 53"
  shows "fl n = n"
proof (cases "\<bar>n\<bar> < 2 ^ 53")
  case True
  then have "drop_bits \<bar>n\<bar> = 0" by (subst drop_bits.simps) auto
  then show ?thesis by (simp add: fl_def Let_def sgn_if)
next
  case False
  with assms have "n = 2 ^ 53 \<or> n = - (2 ^ 53)" by auto
  moreover have "fl (2 ^ 53) = 2 ^ 53" by code_simp
  moreover have "fl (- (2 ^ 53)) = - (2 ^ 53)" by code_simp
  ultimately show ?thesis by auto
qed

lemma fl_in_range:
  assumes "in_range n"
  shows "fl n = n"
  using assms by (intro fl_id) (simp add: in_range_def)

subsection \<open>What the stepping loop returns, when it returns\<close>

lemmas bres_loop_induct =
  bres_loop.raw_induct
    [where xa = "((((((((((plot, dx), dy), sx), sy), x2), y2), x), y), err), c)"
       for plot dx dy sx sy x2 y2 x y err c, simplified, rotated, consumes 1, case_names step]

lemma bres_loop_partial:
  fixes plot :: "int \<Rightarrow> int \<Rightarrow> 'c \<Rightarrow> error + 'c"
  assumes run: "bres_loop plot dx dy sx sy x2 y2 x y err c = Some r"
    and I: "I c"
    and step: "\<And>x y c c'. I c \<Longrightarrow> plot x y c = Inr c' \<Longrightarrow> I c'"
    and final: "\<And>c c'. I c \<Longrightarrow> plot x2 y2 c = Inr c' \<Longrightarrow> Q c'"
    and fail: "\<And>x y c e. I c \<Longrightarrow> plot x y c = Inl e \<Longrightarrow> E e"
  shows "case r of Inl e \<Rightarrow> E e | Inr c' \<Rightarrow> I c' \<and> Q c'"
proof -
  let ?ok = "\<lambda>p u v. (\<forall>x y c c'. I c \<longrightarrow> p x y c = Inr c' \<longrightarrow> I c')
      \<and> (\<forall>c c'. I c \<longrightarrow> p u v c = Inr c' \<longrightarrow> Q c')
      \<and> (\<forall>x y c e. I c \<longrightarrow> p x y c = Inl e \<longrightarrow> E e)"
  from run have "?ok plot x2 y2 \<and> I c
      \<longrightarrow> (case r of Inl e \<Rightarrow> E e | Inr c' \<Rightarrow> I c' \<and> Q c')"
  proof (induction rule: bres_loop_induct [where P = "\<lambda>p dx dy sx sy u v x y err c r.
      ?ok p u v \<and> I c \<longrightarrow> (case r of Inl e \<Rightarrow> E e | Inr c' \<Rightarrow> I c' \<and> Q c')"])
    case (step loop p dx dy sx sy u v x y err c r)
    show ?case
    proof (intro impI, elim conjE)
      assume ok: "\<forall>x y c c'. I c \<longrightarrow> p x y c = Inr c' \<longrightarrow> I c'"
        "\<forall>c c'. I c \<longrightarrow> p u v c = Inr c' \<longrightarrow> Q c'"
        "\<forall>x y c e. I c \<longrightarrow> p x y c = Inl e \<longrightarrow> E e"
        and Ic: "I c"
      show "case r of Inl e \<Rightarrow> E e | Inr c' \<Rightarrow> I c' \<and> Q c'"
      proof (cases "p x y c")
        case (Inl e)
        then have "r = Inl e" using step(2) by simp
        moreover have "E e" using ok(3) Ic Inl by blast
        ultimately show ?thesis by simp
      next
        case (Inr c')
        have Ic': "I c'" using ok(1) Ic Inr by blast
        show ?thesis
        proof (cases "x = u \<and> y = v")
          case True
          then have "r = Inr c'" using step(2) Inr by simp
          moreover have "Q c'" using ok(2) Ic Inr True by blast
          ultimately show ?thesis using Ic' by simp
        next
          case False
          from step(2) have "\<exists>x' y' err'. loop p dx dy sx sy u v x' y' err' c' = Some r"
            by (simp add: Inr False Let_def; blast)
          then obtain x' y' err' where
            "loop p dx dy sx sy u v x' y' err' c' = Some r" by blast
          from step(1) [OF this] ok Ic' show ?thesis by blast
        qed
      qed
    qed
  qed
  moreover have "?ok plot x2 y2" using step final fail by blast
  ultimately show ?thesis using I by blast
qed

lemma bresenham_partial:
  fixes plot :: "int \<Rightarrow> int \<Rightarrow> int \<Rightarrow> int \<Rightarrow> int \<Rightarrow> int \<Rightarrow> 'c \<Rightarrow> error + 'c"
  assumes run: "bresenham plot x1 y1 x2 y2 c = Some r"
    and I: "I c"
    and step: "\<And>dx dy sx sy x y c c'. I c \<Longrightarrow> plot dx dy sx sy x y c = Inr c' \<Longrightarrow> I c'"
    and fail: "\<And>dx dy sx sy x y c e. I c \<Longrightarrow> plot dx dy sx sy x y c = Inl e \<Longrightarrow> E e"
  shows "case r of Inl e \<Rightarrow> E e | Inr c' \<Rightarrow> I c'"
proof -
  have "case r of Inl e \<Rightarrow> E e | Inr c' \<Rightarrow> I c' \<and> True"
    using run [unfolded bresenham_def Let_def] I
    by (rule bres_loop_partial [where I = I and Q = "\<lambda>_. True"]) (auto intro: step fail)
  then show ?thesis by (cases r) auto
qed

subsection \<open>Where the stepping loop does not end\<close>

text \<open>
  When a step in y leaves y as it is and y is not the end row, the loop cannot reach its
  \<open>break\<close>: with a plot action that raises nothing it runs forever. The same holds in x.
\<close>

lemma bres_loop_stuck_y:
  fixes plot :: "int \<Rightarrow> int \<Rightarrow> 'c \<Rightarrow> error + 'c"
  assumes I: "I c"
    and total: "\<And>x y c. I c \<Longrightarrow> \<exists>c'. plot x y c = Inr c' \<and> I c'"
    and stuck: "fl (y + sy) = y" "y \<noteq> y2"
  shows "bres_loop plot dx dy sx sy x2 y2 x y err c = None"
proof (rule ccontr)
  let ?tot = "\<lambda>p. \<forall>x y c. I c \<longrightarrow> (\<exists>c'. p x y c = Inr c' \<and> I c')"
  assume "bres_loop plot dx dy sx sy x2 y2 x y err c \<noteq> None"
  then obtain r where "bres_loop plot dx dy sx sy x2 y2 x y err c = Some r" by auto
  then have "?tot plot \<and> I c \<and> fl (y + sy) = y \<and> y \<noteq> y2 \<longrightarrow> False"
  proof (induction rule: bres_loop_induct [where P = "\<lambda>p dx dy sx sy x2 y2 x y err c r.
      ?tot p \<and> I c \<and> fl (y + sy) = y \<and> y \<noteq> y2 \<longrightarrow> False"])
    case (step loop p dx dy sx sy x2 y2 x y err c r)
    show ?case
    proof (intro impI, elim conjE)
      assume tot: "?tot p" and Ic: "I c" and st: "fl (y + sy) = y" "y \<noteq> y2"
      obtain c' where c': "p x y c = Inr c'" "I c'" using tot Ic by blast
      have "\<not> (x = x2 \<and> y = y2)" using st by simp
      with step(2) have "(let e2 = 2 * err;
                 err1 = if - dy < e2 then fl (err - dy) else err;
                 x' = if - dy < e2 then fl (x + sx) else x;
                 err2 = if e2 < dx then fl (err1 + dx) else err1;
                 y' = if e2 < dx then fl (y + sy) else y
             in loop p dx dy sx sy x2 y2 x' y' err2 c') = Some r"
        by (simp only: c' sum.case if_False)
      moreover have "(if 2 * err < dx then fl (y + sy) else y) = y" using st by simp
      ultimately have "\<exists>x' err'. loop p dx dy sx sy x2 y2 x' y err' c' = Some r"
        unfolding Let_def by (simp only:) blast
      then obtain x' err' where "loop p dx dy sx sy x2 y2 x' y err' c' = Some r" by blast
      from step(1) [OF this] tot c'(2) st show False by blast
    qed
  qed
  with I total stuck show False by blast
qed

lemma bres_loop_stuck_x:
  fixes plot :: "int \<Rightarrow> int \<Rightarrow> 'c \<Rightarrow> error + 'c"
  assumes I: "I c"
    and total: "\<And>x y c. I c \<Longrightarrow> \<exists>c'. plot x y c = Inr c' \<and> I c'"
    and stuck: "fl (x + sx) = x" "x \<noteq> x2"
  shows "bres_loop plot dx dy sx sy x2 y2 x y err c = None"
proof (rule ccontr)
  let ?tot = "\<lambda>p. \<forall>x y c. I c \<longrightarrow> (\<exists>c'. p x y c = Inr c' \<and> I c')"
  assume "bres_loop plot dx dy sx sy x2 y2 x y err c \<noteq> None"
  then obtain r where "bres_loop plot dx dy sx sy x2 y2 x y err c = Some r" by auto
  then have "?tot plot \<and> I c \<and> fl (x + sx) = x \<and> x \<noteq> x2 \<longrightarrow> False"
  proof (induction rule: bres_loop_induct [where P = "\<lambda>p dx dy sx sy x2 y2 x y err c r.
      ?tot p \<and> I c \<and> fl (x + sx) = x \<and> x \<noteq> x2 \<longrightarrow> False"])
    case (step loop p dx dy sx sy x2 y2 x y err c r)
    show ?case
    proof (intro impI, elim conjE)
      assume tot: "?tot p" and Ic: "I c" and st: "fl (x + sx) = x" "x \<noteq> x2"
      obtain c' where c': "p x y c = Inr c'" "I c'" using tot Ic by blast
      have "\<not> (x = x2 \<and> y = y2)" using st by simp
      with step(2) have "(let e2 = 2 * err;
                 err1 = if - dy < e2 then fl (err - dy) else err;
                 x' = if - dy < e2 then fl (x + sx) else x;
                 err2 = if e2 < dx then fl (err1 + dx) else err1;
                 y' = if e2 < dx then fl (y + sy) else y
             in loop p dx dy sx sy x2 y2 x' y' err2 c') = Some r"
        by (simp only: c' sum.case if_False)
      moreover have "(if - dy < 2 * err then fl (x + sx) else x) = x" using st by simp
      ultimately have "\<exists>y' err'. loop p dx dy sx sy x2 y2 x y' err' c' = Some r"
        unfolding Let_def by (simp only:) blast
      then obtain y' err' where "loop p dx dy sx sy x2 y2 x y' err' c' = Some r" by blast
      from step(1) [OF this] tot c'(2) st show False by blast
    qed
  qed
  with I total stuck show False by blast
qed

subsection \<open>The stepping loop ends on coordinates in range\<close>

text \<open>
  After \<open>a\<close> steps in x and \<open>b\<close> steps in y the accumulator is
  \<open>(b + 1) * dx - (a + 1) * dy\<close>, and twice the accumulator stays between \<open>- 3 * dy\<close> and
  \<open>3 * dx\<close>. With coordinates of magnitude at most \<open>2^51\<close> every sum and difference of
  the loop is then below \<open>2^53\<close> in magnitude and is not rounded. A step in x is never
  taken once \<open>a = dx\<close>, a step in y never once \<open>b = dy\<close>, and an iteration that does not
  end the loop takes at least one step; so the distance \<open>(dx - a) + (dy - b)\<close> to the end
  point decreases.
\<close>

lemma bres_no_x_overshoot:
  fixes dx dy a b :: int
  assumes "0 \<le> dx" "b < dy" "0 \<le> b"
  shows "\<not> 2 * ((b + 1) * dx - (dx + 1) * dy) > - dy"
proof -
  have "dx * (b + 1 - dy) \<le> 0"
    using assms by (intro mult_nonneg_nonpos) auto
  then have "2 * (dx * (b + 1 - dy)) \<le> 0" by simp
  moreover have "2 * ((b + 1) * dx - (dx + 1) * dy) = 2 * (dx * (b + 1 - dy)) - 2 * dy"
    by (simp add: algebra_simps)
  ultimately show ?thesis using assms by linarith
qed

lemma bres_no_y_overshoot:
  fixes dx dy a b :: int
  assumes "0 \<le> dy" "a < dx" "0 \<le> a"
  shows "\<not> 2 * ((dy + 1) * dx - (a + 1) * dy) < dx"
proof -
  have "0 \<le> dy * (dx - a - 1)"
    using assms by (intro mult_nonneg_nonneg) auto
  then have "0 \<le> 2 * (dy * (dx - a - 1))" by simp
  moreover have "2 * ((dy + 1) * dx - (a + 1) * dy) = 2 * (dy * (dx - a - 1)) + 2 * dx"
    by (simp add: algebra_simps)
  ultimately show ?thesis using assms by linarith
qed

lemma bres_loop_returns:
  fixes plot :: "int \<Rightarrow> int \<Rightarrow> 'c \<Rightarrow> error + 'c"
  assumes ab: "0 \<le> a" "a \<le> dx" "0 \<le> b" "b \<le> dy"
    and sx: "sx = 1 \<or> sx = - 1" and sy: "sy = 1 \<or> sy = - 1"
    and x: "x = x2 - sx * (dx - a)" and y: "y = y2 - sy * (dy - b)"
    and err: "err = (b + 1) * dx - (a + 1) * dy"
    and lo: "- 3 * dy \<le> 2 * err" and hi: "2 * err \<le> 3 * dx"
    and range: "dx \<le> 2 ^ 52" "dy \<le> 2 ^ 52" "\<bar>x2\<bar> \<le> 2 ^ 51" "\<bar>y2\<bar> \<le> 2 ^ 51"
  shows "\<exists>r. bres_loop plot dx dy sx sy x2 y2 x y err c = Some r"
  using ab x y err lo hi
proof (induction "nat ((dx - a) + (dy - b))" arbitrary: a b x y err c rule: less_induct)
  case less
  note ab = less.prems(1-4) and xe = less.prems(5) and ye = less.prems(6)
    and erre = less.prems(7) and lo = less.prems(8) and hi = less.prems(9)
  show ?case
  proof (cases "plot x y c")
    case (Inl e)
    then show ?thesis by (subst bres_loop.simps) simp
  next
    case (Inr c')
    show ?thesis
    proof (cases "x = x2 \<and> y = y2")
      case True
      with Inr show ?thesis by (subst bres_loop.simps) simp
    next
      case False
      have xa: "x = x2 \<longleftrightarrow> a = dx" using sx xe by auto
      have yb: "y = y2 \<longleftrightarrow> b = dy" using sy ye by auto
      define stepx where "stepx \<longleftrightarrow> 2 * err > - dy"
      define stepy where "stepy \<longleftrightarrow> 2 * err < dx"
      have nx: "stepx \<Longrightarrow> a < dx"
      proof (rule ccontr)
        assume sxp: stepx and "\<not> a < dx"
        then have adx: "a = dx" using ab(2) by simp
        then have "b < dy" using False xa yb ab(4) by auto
        from bres_no_x_overshoot [OF _ this ab(3), of dx] ab(1,2) adx sxp
        show False unfolding stepx_def erre by simp
      qed
      have ny: "stepy \<Longrightarrow> b < dy"
      proof (rule ccontr)
        assume syp: stepy and "\<not> b < dy"
        then have bdy: "b = dy" using ab(4) by simp
        then have "a < dx" using False xa yb ab(2) by auto
        from bres_no_y_overshoot [OF _ this ab(1), of dy] ab(3,4) bdy syp
        show False unfolding stepy_def erre by simp
      qed
      have some: "stepx \<or> stepy"
      proof (rule ccontr)
        assume "\<not> (stepx \<or> stepy)"
        then have "dx \<le> 2 * err" "2 * err \<le> - dy" by (auto simp: stepx_def stepy_def)
        then have "a = dx \<and> b = dy" using ab by linarith
        with False xa yb show False by simp
      qed
      define a' where "a' = (if stepx then a + 1 else a)"
      define b' where "b' = (if stepy then b + 1 else b)"
      define err1 where "err1 = (if stepx then err - dy else err)"
      define x' where "x' = (if stepx then x + sx else x)"
      define err' where "err' = (if stepy then err1 + dx else err1)"
      define y' where "y' = (if stepy then y + sy else y)"
      have dpos: "0 \<le> dx" "0 \<le> dy" using ab by simp_all
      have exact1: "stepx \<Longrightarrow> fl (err - dy) = err - dy"
        using lo hi range(1,2) dpos by (intro fl_id) (simp add: stepx_def)
      have exact2: "stepx \<Longrightarrow> fl (x + sx) = x + sx"
      proof (rule fl_id)
        assume stepx
        then have "a < dx" by (rule nx)
        have "x + sx = x2 - sx * (dx - a - 1)" using xe by (simp add: algebra_simps)
        moreover have "\<bar>sx * (dx - a - 1)\<bar> \<le> dx"
          using sx \<open>a < dx\<close> ab(1) by (auto simp: abs_mult)
        ultimately show "\<bar>x + sx\<bar> \<le> 2 ^ 53" using range(1,3) by simp
      qed
      have exact3: "stepy \<Longrightarrow> fl (err1 + dx) = err1 + dx"
        using lo hi range(1,2) dpos
        by (intro fl_id) (auto simp: stepx_def stepy_def err1_def)
      have exact4: "stepy \<Longrightarrow> fl (y + sy) = y + sy"
      proof (rule fl_id)
        assume stepy
        then have "b < dy" by (rule ny)
        have "y + sy = y2 - sy * (dy - b - 1)" using ye by (simp add: algebra_simps)
        moreover have "\<bar>sy * (dy - b - 1)\<bar> \<le> dy"
          using sy \<open>b < dy\<close> ab(3) by (auto simp: abs_mult)
        ultimately show "\<bar>y + sy\<bar> \<le> 2 ^ 53" using range(2,4) by simp
      qed
      have m: "nat ((dx - a') + (dy - b')) < nat ((dx - a) + (dy - b))"
        using nx ny some ab by (auto simp: a'_def b'_def)
      have p1: "0 \<le> a'" "a' \<le> dx" "0 \<le> b'" "b' \<le> dy"
        using nx ny ab by (auto simp: a'_def b'_def)
      have p2: "x' = x2 - sx * (dx - a')" "y' = y2 - sy * (dy - b')"
        using xe ye by (auto simp: a'_def b'_def x'_def y'_def algebra_simps)
      have p3: "err' = (b' + 1) * dx - (a' + 1) * dy"
        using erre by (auto simp: a'_def b'_def err'_def err1_def algebra_simps)
      have p4: "- 3 * dy \<le> 2 * err'" "2 * err' \<le> 3 * dx"
        using lo hi dpos by (auto simp: err'_def err1_def stepx_def stepy_def)
      from less.hyps [OF m p1 p2 p3 p4]
      obtain r where r: "bres_loop plot dx dy sx sy x2 y2 x' y' err' c' = Some r" by blast
      have "bres_loop plot dx dy sx sy x2 y2 x y err c = bres_loop plot dx dy sx sy x2 y2 x' y' err' c'"
      proof (cases stepx; cases stepy)
        assume s: stepx stepy
        then have e: "fl (err - dy) + dx = err1 + dx" using exact1 by (simp add: err1_def)
        from s show ?thesis
          using exact1 exact2 exact3 exact4 e
          by (subst bres_loop.simps)
            (simp add: Inr False Let_def x'_def y'_def err'_def err1_def stepx_def stepy_def)
      next
        assume s: stepx "\<not> stepy"
        then show ?thesis
          using exact1 exact2
          by (subst bres_loop.simps)
            (simp add: Inr False Let_def x'_def y'_def err'_def err1_def stepx_def stepy_def)
      next
        assume s: "\<not> stepx" stepy
        then show ?thesis
          using exact3 exact4
          by (subst bres_loop.simps)
            (simp add: Inr False Let_def x'_def y'_def err'_def err1_def stepx_def stepy_def)
      next
        assume s: "\<not> stepx" "\<not> stepy"
        then show ?thesis using some by simp
      qed
      with r show ?thesis by simp
    qed
  qed
qed

lemma bresenham_exact:
  fixes plot :: "int \<Rightarrow> int \<Rightarrow> int \<Rightarrow> int \<Rightarrow> int \<Rightarrow> int \<Rightarrow> 'c \<Rightarrow> error + 'c"
  assumes "in_range x1" "in_range y1" "in_range x2" "in_range y2"
  shows "bresenham plot x1 y1 x2 y2 c =
     bres_loop (plot \<bar>x2 - x1\<bar> \<bar>y2 - y1\<bar> (if x1 < x2 then 1 else - 1) (if y1 < y2 then 1 else - 1))
       \<bar>x2 - x1\<bar> \<bar>y2 - y1\<bar> (if x1 < x2 then 1 else - 1) (if y1 < y2 then 1 else - 1)
       x2 y2 x1 y1 (\<bar>x2 - x1\<bar> - \<bar>y2 - y1\<bar>) c"
proof -
  have r: "\<bar>x1\<bar> \<le> 2 ^ 51" "\<bar>y1\<bar> \<le> 2 ^ 51" "\<bar>x2\<bar> \<le> 2 ^ 51" "\<bar>y2\<bar> \<le> 2 ^ 51"
    using assms by (simp_all add: in_range_def)
  have ends: "fl x1 = x1" "fl y1 = y1" "fl x2 = x2" "fl y2 = y2"
    using assms by (simp_all add: fl_in_range)
  have d1: "fl (x2 - x1) = x2 - x1" using r by (intro fl_id) simp
  have d2: "fl (y2 - y1) = y2 - y1" using r by (intro fl_id) simp
  have d3: "fl (\<bar>x2 - x1\<bar> - \<bar>y2 - y1\<bar>) = \<bar>x2 - x1\<bar> - \<bar>y2 - y1\<bar>"
    using r by (intro fl_id) simp
  show ?thesis unfolding bresenham_def Let_def by (simp only: ends d1 d2 d3)
qed

lemma bresenham_returns:
  fixes plot :: "int \<Rightarrow> int \<Rightarrow> int \<Rightarrow> int \<Rightarrow> int \<Rightarrow> int \<Rightarrow> 'c \<Rightarrow> error + 'c"
  assumes "in_range x1" "in_range y1" "in_range x2" "in_range y2"
  shows "\<exists>r. bresenham plot x1 y1 x2 y2 c = Some r"
proof -
  define dx where "dx = \<bar>x2 - x1\<bar>"
  define dy where "dy = \<bar>y2 - y1\<bar>"
  define sx :: int where "sx = (if x1 < x2 then 1 else - 1)"
  define sy :: int where "sy = (if y1 < y2 then 1 else - 1)"
  have r: "\<bar>x1\<bar> \<le> 2 ^ 51" "\<bar>y1\<bar> \<le> 2 ^ 51" "\<bar>x2\<bar> \<le> 2 ^ 51" "\<bar>y2\<bar> \<le> 2 ^ 51"
    using assms by (simp_all add: in_range_def)
  have d: "dx \<le> 2 ^ 52" "dy \<le> 2 ^ 52" "0 \<le> dx" "0 \<le> dy"
    using r by (simp_all add: dx_def dy_def)
  have "\<exists>r. bres_loop (plot dx dy sx sy) dx dy sx sy x2 y2 x1 y1 (dx - dy) c = Some r"
  proof (rule bres_loop_returns [where a = 0 and b = 0])
    show "x1 = x2 - sx * (dx - 0)" by (simp add: sx_def dx_def)
    show "y1 = y2 - sy * (dy - 0)" by (simp add: sy_def dy_def)
    show "dx - dy = (0 + 1) * dx - (0 + 1) * dy" by simp
    show "sx = 1 \<or> sx = - 1" by (simp add: sx_def)
    show "sy = 1 \<or> sy = - 1" by (simp add: sy_def)
    show "- 3 * dy \<le> 2 * (dx - dy)" "2 * (dx - dy) \<le> 3 * dx" using d by simp_all
  qed (use d r in simp_all)
  then show ?thesis
    unfolding bresenham_exact [OF assms] dx_def dy_def sx_def sy_def .
qed

lemma bresenham_visit_last:
  assumes "bresenham visit x1 y1 x2 y2 t0 = Some r"
  shows "\<exists>t. r = Inr t \<and> last t = (fl x2, fl y2)"
proof -
  have "case r of Inl e \<Rightarrow> False | Inr t \<Rightarrow> True \<and> last t = (fl x2, fl y2)"
    using assms [unfolded bresenham_def Let_def]
    by (rule bres_loop_partial [where I = "\<lambda>_. True"]) (auto simp: visit_def)
  then show ?thesis by (cases r) auto
qed

lemma drawLine_plot_total:
  assumes "grid \<noteq> []"
  shows "\<exists>grid'. drawLine_plot dx dy sx sy x y grid = Inr grid' \<and> grid' \<noteq> []"
proof -
  have "canvas_row grid 0 \<noteq> None" using assms by (simp add: canvas_row_def)
  then show ?thesis
    using assms
    by (auto simp: drawLine_plot_def Let_def set_in_row_def canvas_row_def split: option.splits)
qed

text \<open>
  Claim C9, as stated, fails from \<open>2^53\<close> on, where a double no longer holds every
  integer. \<open>drawLine\<close> from \<open>(2^53, 0)\<close> to \<open>(2^53 + 2, 0)\<close> adds 1 to \<open>x = 2^53\<close> and gets
  \<open>2^53\<close> again, for ever. \<open>createLineGraph\<close> on the series \<open>-10^18\<close>, \<open>-10^18 - 256\<close>, 0 with
  height 1 has its first segment from row \<open>5 * 10^16\<close> to row \<open>5 * 10^16 + 16\<close>, and a step
  of 1 leaves that row where it is.
\<close>

theorem stepping_loop_hangs:
  "drawLine (new_canvas 3 1) (2 ^ 53) 0 (2 ^ 53 + 2) 0 = None
   \<and> fl (rowOf [- (10 ^ 18), - (10 ^ 18) - 256, 0] 1 (- (10 ^ 18))) = 5 * 10 ^ 16
   \<and> fl (rowOf [- (10 ^ 18), - (10 ^ 18) - 256, 0] 1 (- (10 ^ 18) - 256)) = 5 * 10 ^ 16 + 16
   \<and> fl (5 * 10 ^ 16 + 1) = 5 * 10 ^ 16
   \<and> createLineGraph [- (10 ^ 18), - (10 ^ 18) - 256, 0] (example_options 3 1 []) = None"
proof -
  have a: "drawLine (new_canvas 3 1) (2 ^ 53) 0 (2 ^ 53 + 2) 0 = None"
    unfolding drawLine_def bresenham_def Let_def
  proof (rule bres_loop_stuck_x [where I = "\<lambda>g. g \<noteq> []"])
    show "new_canvas 3 1 \<noteq> []" by (simp add: new_canvas_def)
    show "fl (fl (2 ^ 53) + (if fl (2 ^ 53) < fl (2 ^ 53 + 2) then 1 else - 1)) = fl (2 ^ 53)"
      by code_simp
    show "fl (2 ^ 53) \<noteq> fl (2 ^ 53 + 2)" by code_simp
  qed (rule drawLine_plot_total)
  let ?data = "[- (10 ^ 18), - (10 ^ 18) - 256, 0] :: real list"
  let ?opts = "example_options 3 1 []"
  let ?y1 = "rowOf ?data (height ?opts) (?data ! 0)"
  let ?y2 = "rowOf ?data (height ?opts) (?data ! (0 + 1))"
  have b: "fl (rowOf ?data 1 (- (10 ^ 18))) = 5 * 10 ^ 16" by code_simp
  have c: "fl (rowOf ?data 1 (- (10 ^ 18) - 256)) = 5 * 10 ^ 16 + 16" by code_simp
  have d: "fl (5 * 10 ^ 16 + 1) = 5 * 10 ^ 16" by code_simp
  have y1: "fl ?y1 = 5 * 10 ^ 16" using b by simp
  have y2: "fl ?y2 = 5 * 10 ^ 16 + 16" using c by simp
  have seg: "bresenham (line_plot (width ?opts) (height ?opts)) (colOf ?data (width ?opts) 0) ?y1
      (colOf ?data (width ?opts) (0 + 1)) ?y2 (new_canvas (width ?opts) (height ?opts)) = None"
    unfolding bresenham_def Let_def
  proof (rule bres_loop_stuck_y [where I = "\<lambda>_. True"])
    show "fl (fl ?y1 + (if fl ?y1 < fl ?y2 then 1 else - 1)) = fl ?y1"
      unfolding y1 y2 using d by simp
    show "fl ?y1 \<noteq> fl ?y2" unfolding y1 y2 by simp
  qed (simp_all add: line_plot_def)
  have "[0..<length ?data - 1] = [0, 1]" by (simp add: upt_rec)
  then have "createLineGraph_canvas ?data ?opts = None"
    using seg by (simp add: createLineGraph_canvas_def Let_def del: example_options_sel)
  then have e: "createLineGraph ?data ?opts = None"
    by (simp add: createLineGraph_def)
  from a b c d e show ?thesis by blast
qed

text \<open>
  Claim C9, amended. For integer end points \<open>(x1, y1)\<close> and \<open>(x2, y2)\<close> of magnitude at
  most \<open>2^51\<close>, on or off the canvas, the stepping loop with \<open>err = dx - dy\<close> ends: the
  rasterizer \<open>drawLine\<close> returns (a grid, or the exception of a plot action), the copy of
  the loop in \<open>createLineGraph\<close> returns a canvas, and the last cell the loop visits is
  \<open>(x2, y2)\<close>.
\<close>

theorem bresenham_terminates_in_range:
  assumes "in_range x1" and "in_range y1" and "in_range x2" and "in_range y2"
  shows "(\<exists>r. drawLine grid x1 y1 x2 y2 = Some r)
       \<and> (\<exists>c'. bresenham (line_plot w h) x1 y1 x2 y2 c = Some (Inr c'))
       \<and> (\<exists>t. bresenham visit x1 y1 x2 y2 [] = Some (Inr t) \<and> last t = (x2, y2))"
proof -
  have "\<exists>r. drawLine grid x1 y1 x2 y2 = Some r"
    unfolding drawLine_def using assms by (rule bresenham_returns)
  moreover have "\<exists>c'. bresenham (line_plot w h) x1 y1 x2 y2 c = Some (Inr c')"
  proof -
    obtain r where r: "bresenham (line_plot w h) x1 y1 x2 y2 c = Some r"
      using bresenham_returns [OF assms, where plot = "line_plot w h" and c = c] by blast
    have "case r of Inl e \<Rightarrow> False | Inr c' \<Rightarrow> True"
      using r by (rule bresenham_partial [where I = "\<lambda>_. True"]) (simp_all add: line_plot_def)
    then show ?thesis using r by (cases r) auto
  qed
  moreover have "\<exists>t. bresenham visit x1 y1 x2 y2 [] = Some (Inr t) \<and> last t = (x2, y2)"
  proof -
    obtain r where r: "bresenham visit x1 y1 x2 y2 [] = Some r"
      using bresenham_returns [OF assms, where plot = visit and c = "[]"] by blast
    from bresenham_visit_last [OF r] r show ?thesis
      using assms(3,4) by (auto simp: fl_in_range)
  qed
  ultimately show ?thesis by blast
qed

theorem bresenham_terminates_in_range_witness:
  "in_range 0 \<and> in_range 2 \<and> in_range 3 \<and> in_range 0
   \<and> (\<exists>t. bresenham visit 0 2 3 0 [] = Some (Inr t) \<and> last t = (3, 0))
   \<and> bresenham visit 0 2 3 0 [] = Some (Inr [(0, 2), (1, 1), (2, 1), (3, 0)])"
proof -
  have r: "in_range 0" "in_range 2" "in_range 3" by (simp_all add: in_range_def)
  have v: "bresenham visit 0 2 3 0 [] = Some (Inr [(0, 2), (1, 1), (2, 1), (3, 0)])"
    by code_simp
  from bresenham_terminates_in_range [OF r(1) r(2) r(3) r(1)] r v show ?thesis by blast
qed

subsection \<open>The shape of the canvas is kept\<close>

lemma canvas_inv_new:
  assumes "P [SPACE]"
  shows "canvas_inv P w h (new_canvas w h)"
  using assms by (simp add: canvas_inv_def new_canvas_def)

lemma canvas_row_SomeD:
  assumes "canvas_row c y = Some r"
  shows "0 \<le> y" and "nat y < length c" and "r = c ! nat y" and "r \<in> set c"
  using assms by (auto simp: canvas_row_def split: if_splits)

lemma arr_set_elems:
  assumes "x < int (length (elems r))"
  shows "length (elems (arr_set r x v)) = length (elems r)"
    and "set (elems (arr_set r x v)) \<subseteq> insert v (set (elems r))"
  using assms by (auto simp: arr_set_def dest: set_update_subset_insert [THEN subsetD])

lemma canvas_inv_set_in_row:
  assumes inv: "canvas_inv P w h c" and row: "canvas_row c y = Some r"
    and x: "x < w" and v: "P v"
  shows "canvas_inv P w h (set_in_row c y r x v)"
proof -
  have r: "r \<in> set c" using row by (rule canvas_row_SomeD)
  then have len: "length (elems r) = nat w" and cells: "\<forall>s \<in> set (elems r). P s"
    using inv by (auto simp: canvas_inv_def)
  have xr: "x < int (length (elems r))"
  proof (cases "x < 0")
    case True then show ?thesis by simp
  next
    case False with x len show ?thesis by simp
  qed
  have new_len: "length (elems (arr_set r x v)) = nat w"
    using arr_set_elems(1) [OF xr] len by simp
  have new_cells: "\<forall>s \<in> set (elems (arr_set r x v)). P s"
    using arr_set_elems(2) [OF xr, of v] cells v by auto
  show ?thesis
    unfolding canvas_inv_def set_in_row_def
  proof (intro conjI ballI)
    show "length (c[nat y := arr_set r x v]) = nat (h + 1)"
      using inv by (simp add: canvas_inv_def)
  next
    fix a assume "a \<in> set (c[nat y := arr_set r x v])"
    then have a: "a = arr_set r x v \<or> a \<in> set c"
      using set_update_subset_insert [of c "nat y" "arr_set r x v"] by auto
    then show "length (elems a) = nat w"
      using new_len inv by (auto simp: canvas_inv_def)
    fix s assume "s \<in> set (elems a)"
    with a show "P s" using new_cells inv by (auto simp: canvas_inv_def)
  qed
qed

lemma fold_inv:
  assumes "I c" and "\<And>x c. x \<in> set xs \<Longrightarrow> I c \<Longrightarrow> I (f x c)"
  shows "I (fold f xs c)"
  using assms by (induction xs arbitrary: c) auto

lemma no_stray_new: "no_stray (new_canvas w h)"
  by (simp add: no_stray_def new_canvas_def)

lemma no_stray_set_in_row:
  assumes "no_stray c" "canvas_row c y = Some r" "0 \<le> x"
  shows "no_stray (set_in_row c y r x v)"
proof -
  have r: "r \<in> set c" using assms(2) by (rule canvas_row_SomeD)
  then have "props (arr_set r x v) = []"
    using assms(1,3) by (simp add: no_stray_def arr_set_def)
  then show ?thesis
    using assms(1) set_update_subset_insert [of c "nat y" "arr_set r x v"]
    by (auto simp: no_stray_def set_in_row_def)
qed

lemma line_plot_on:
  assumes "canvas_inv P w h c \<and> no_stray c" "P [MIDDOT]"
  shows "\<exists>c'. line_plot w h dx dy sx sy x y c = Inr c' \<and> canvas_inv P w h c' \<and> no_stray c'"
  using assms
  by (auto simp: line_plot_def split: option.splits
      intro: canvas_inv_set_in_row no_stray_set_in_row)

lemma line_segments_on:
  assumes run: "line_segments data opts is c = Some r"
    and inv: "canvas_inv P (width opts) (height opts) c \<and> no_stray c" and P: "P [MIDDOT]"
  shows "\<exists>c'. r = Inr c' \<and> canvas_inv P (width opts) (height opts) c' \<and> no_stray c'"
  using run inv
proof (induction "is" arbitrary: c)
  case Nil
  then show ?case by auto
next
  case (Cons i "is")
  let ?I = "\<lambda>c. canvas_inv P (width opts) (height opts) c \<and> no_stray c"
  let ?seg = "bresenham (line_plot (width opts) (height opts)) (colOf data (width opts) i)
       (rowOf data (height opts) (data ! i)) (colOf data (width opts) (i + 1))
       (rowOf data (height opts) (data ! (i + 1))) c"
  from Cons.prems(1) obtain r1 where r1: "?seg = Some r1"
    by (cases ?seg) (simp_all add: Let_def)
  have "case r1 of Inl e \<Rightarrow> False | Inr c' \<Rightarrow> ?I c'"
    using r1 Cons.prems(2)
  proof (rule bresenham_partial [where I = ?I])
    show "?I c'" if "?I c" "line_plot (width opts) (height opts) dx dy sx sy x y c = Inr c'"
      for dx dy sx sy x y c c'
      using line_plot_on [where P = P, OF that(1) P, of dx dy sx sy x y] that(2) by auto
    show False if "?I c" "line_plot (width opts) (height opts) dx dy sx sy x y c = Inl e"
      for dx dy sx sy x y c e
      using that(2) by (simp add: line_plot_def)
  qed
  then obtain c1 where c1: "r1 = Inr c1" "?I c1" by (cases r1) auto
  from Cons.prems(1) r1 c1(1) have "line_segments data opts is c1 = Some r"
    by (simp add: Let_def)
  from Cons.IH [OF this c1(2)] show ?case .
qed

lemma line_segments_returns:
  assumes "\<forall>i \<in> set is.
      in_range (colOf data (width opts) i) \<and> in_range (rowOf data (height opts) (data ! i))
      \<and> in_range (colOf data (width opts) (i + 1))
      \<and> in_range (rowOf data (height opts) (data ! (i + 1)))"
  shows "\<exists>r. line_segments data opts is c = Some r"
  using assms
proof (induction "is" arbitrary: c)
  case Nil
  then show ?case by simp
next
  case (Cons i "is")
  let ?seg = "bresenham (line_plot (width opts) (height opts)) (colOf data (width opts) i)
       (rowOf data (height opts) (data ! i)) (colOf data (width opts) (i + 1))
       (rowOf data (height opts) (data ! (i + 1))) c"
  have "\<exists>r. ?seg = Some r"
    using Cons.prems by (intro bresenham_returns) simp_all
  then obtain r1 where r1: "?seg = Some r1" by blast
  show ?case
  proof (cases r1)
    case (Inl e)
    then show ?thesis using r1 by (simp add: Let_def)
  next
    case (Inr c1)
    from Cons.IH [of c1] Cons.prems obtain r where "line_segments data opts is c1 = Some r"
      by auto
    then show ?thesis using r1 Inr by (simp add: Let_def)
  qed
qed

lemma line_point_on:
  assumes "canvas_inv P (width opts) (height opts) c \<and> no_stray c" "P [BULLET]"
  shows "canvas_inv P (width opts) (height opts) (line_point data opts i c)
       \<and> no_stray (line_point data opts i c)"
  using assms
  by (auto simp: line_point_def Let_def split: option.splits
      intro: canvas_inv_set_in_row no_stray_set_in_row)

lemma createLineGraph_canvas_on:
  assumes run: "createLineGraph_canvas data opts = Some r"
    and P: "P [SPACE]" "P [MIDDOT]" "P [BULLET]"
  shows "\<exists>c. r = Inr c \<and> canvas_inv P (width opts) (height opts) c \<and> no_stray c"
proof -
  let ?I = "\<lambda>c. canvas_inv P (width opts) (height opts) c \<and> no_stray c"
  let ?segs = "line_segments data opts [0..<length data - 1] (new_canvas (width opts) (height opts))"
  have start: "?I (new_canvas (width opts) (height opts))"
    using P(1) canvas_inv_new [where P = P] no_stray_new by blast
  from run obtain r1 where r1: "?segs = Some r1"
    by (cases ?segs) (simp_all add: createLineGraph_canvas_def)
  from line_segments_on [where P = P, OF r1 start P(2)]
  obtain c1 where c1: "r1 = Inr c1" "?I c1" by blast
  have "?I (fold (line_point data opts) [0..<length data] c1)"
  proof (rule fold_inv [where I = ?I, OF c1(2)])
    fix x c assume "?I c"
    then show "?I (line_point data opts x c)"
      using P(3) by (rule line_point_on [where P = P])
  qed
  with run r1 c1(1) show ?thesis by (auto simp: createLineGraph_canvas_def)
qed

lemma createLineGraph_returns:
  assumes "points_in_range data opts"
  shows "createLineGraph data opts \<noteq> None"
proof -
  have "\<forall>i \<in> set [0..<length data - 1].
      in_range (colOf data (width opts) i) \<and> in_range (rowOf data (height opts) (data ! i))
      \<and> in_range (colOf data (width opts) (i + 1))
      \<and> in_range (rowOf data (height opts) (data ! (i + 1)))"
    using assms by (auto simp: points_in_range_def list_all_iff)
  from line_segments_returns [OF this]
  obtain r where "line_segments data opts [0..<length data - 1]
      (new_canvas (width opts) (height opts)) = Some r" by blast
  then have "createLineGraph_canvas data opts \<noteq> None"
    by (cases r) (simp_all add: createLineGraph_canvas_def)
  then show ?thesis
    by (auto simp: createLineGraph_def split: option.splits sum.splits)
qed

text \<open>
  The series the renderers are used for, non-negative values on a canvas of at most \<open>2^51\<close>
  columns and rows, have every point in range: their columns are on the canvas and their
  rows between 0 and the height.
\<close>

lemma js_round_between:
  assumes "real_of_int a \<le> v" "v \<le> real_of_int b"
  shows "a \<le> js_round v \<and> js_round v \<le> b"
proof -
  have "a \<le> \<lfloor>v + 1 / 2\<rfloor>" using assms(1) by linarith
  moreover have "\<lfloor>v + 1 / 2\<rfloor> \<le> b" using assms(2) by linarith
  ultimately show ?thesis by (simp add: js_round_def)
qed

lemma colOf_on_canvas:
  assumes "2 \<le> length data" "1 \<le> w" "i < length data"
  shows "0 \<le> colOf data w i \<and> colOf data w i \<le> w - 1"
proof -
  define d where "d = real (length data) - 1"
  have d: "0 < d" "real i \<le> d" using assms(1,3) by (simp_all add: d_def)
  have x: "xStep data w = real_of_int (w - 1) / d"
    using assms(1) by (simp add: xStep_def d_def)
  have w: "0 \<le> real_of_int (w - 1)" using assms(2) by simp
  have "0 \<le> real i * xStep data w" using d w by (simp add: x)
  moreover have "real i * xStep data w \<le> real_of_int (w - 1)"
  proof -
    have "real i * real_of_int (w - 1) \<le> d * real_of_int (w - 1)"
      using d(2) w by (rule mult_right_mono)
    then show ?thesis using d(1) by (simp add: x field_simps)
  qed
  ultimately show ?thesis
    unfolding colOf_def using js_round_between [of 0 "real i * xStep data w" "w - 1"] by simp
qed

lemma rowOf_on_canvas:
  assumes "v \<in> set data" "\<forall>u \<in> set data. 0 \<le> u" "0 \<le> h"
  shows "0 \<le> rowOf data h v \<and> rowOf data h v \<le> h"
proof -
  define q where "q = (v - real_of_int yMin) / real_of_int (yRange data)"
  have v: "0 \<le> v" "v \<le> dataMax data"
    using assms(1,2) by (auto simp: dataMax_def)
  have "0 \<le> q \<and> q \<le> 1"
  proof (cases "yAxisMax data = 0")
    case True
    then have "\<lceil>dataMax data / 20\<rceil> = 0" by (simp add: yAxisMax_def yAxisStep_def)
    then have "dataMax data / 20 \<le> 0" by linarith
    then have "v = 0" using v by simp
    then show ?thesis by (simp add: q_def yMin_def)
  next
    case False
    have "dataMax data / 20 \<le> real_of_int \<lceil>dataMax data / 20\<rceil>" by linarith
    then have "dataMax data \<le> real_of_int \<lceil>dataMax data / 20\<rceil> * 20" by linarith
    then have m: "dataMax data \<le> real_of_int (yRange data)"
      using False by (simp add: yRange_def yMax_def yAxisMax_def yAxisStep_def yMin_def)
    then have "0 < real_of_int (yRange data) \<or> v = 0"
      using v by linarith
    then show ?thesis
    proof
      assume "0 < real_of_int (yRange data)"
      then show ?thesis using v m by (simp add: q_def yMin_def)
    next
      assume "v = 0"
      then show ?thesis by (simp add: q_def yMin_def)
    qed
  qed
  then have q: "0 \<le> q" "q \<le> 1" by simp_all
  have hh: "0 \<le> real_of_int h" using assms(3) by simp
  have "q * real_of_int h \<le> 1 * real_of_int h" using q(2) hh by (rule mult_right_mono)
  moreover have "0 \<le> q * real_of_int h" using q(1) hh by simp
  ultimately have "real_of_int 0 \<le> real_of_int h - q * real_of_int h"
    "real_of_int h - q * real_of_int h \<le> real_of_int h"
    by simp_all
  from js_round_between [OF this] show ?thesis by (simp add: rowOf_def q_def)
qed

lemma nonneg_points_in_range:
  assumes "2 \<le> length data" and "\<forall>u \<in> set data. 0 \<le> u"
    and "1 \<le> width opts" "width opts \<le> 2 ^ 51" and "0 \<le> height opts" "height opts \<le> 2 ^ 51"
  shows "points_in_range data opts"
proof -
  have "in_range (colOf data (width opts) i) \<and> in_range (rowOf data (height opts) (data ! i))"
    if "i < length data" for i
  proof -
    have "data ! i \<in> set data" using that by simp
    from rowOf_on_canvas [OF this assms(2,5)] colOf_on_canvas [OF assms(1,3) that] assms(4,6)
    show ?thesis by (simp add: in_range_def)
  qed
  then show ?thesis by (simp add: points_in_range_def list_all_iff)
qed

lemma fill_cell_inv:
  assumes "canvas_inv P w h c" "P [BLOCK]"
  shows "canvas_inv P w h (fill_cell w y x c)"
  using assms by (auto simp: fill_cell_def split: option.splits intro: canvas_inv_set_in_row)

lemma fill_bar_inv:
  assumes "canvas_inv P (width opts) (height opts) c" "P [BLOCK]"
  shows "canvas_inv P (width opts) (height opts) (fill_bar data opts i c)"
  unfolding fill_bar_def Let_def
proof (rule fold_inv [where I = "canvas_inv P (width opts) (height opts)", OF assms(1)])
  fix y c assume c: "canvas_inv P (width opts) (height opts) c"
  show "canvas_inv P (width opts) (height opts)
          (fold (fill_cell (width opts) y)
             [barStart data (width opts) i..barEnd data (width opts) i - 1] c)"
  proof (rule fold_inv [where I = "canvas_inv P (width opts) (height opts)", OF c])
    fix x c assume "canvas_inv P (width opts) (height opts) c"
    then show "canvas_inv P (width opts) (height opts) (fill_cell (width opts) y x c)"
      using assms(2) by (rule fill_cell_inv [where P = P])
  qed
qed

lemma label_char_inv:
  assumes "canvas_inv P w h c" "P [valueStr ! j]"
  shows "canvas_inv P w h (label_char w vy vx valueStr j c)"
  using assms by (auto simp: label_char_def split: option.splits intro: canvas_inv_set_in_row)

lemma bar_label_inv:
  assumes "canvas_inv P (width opts) (height opts) c"
    and "\<forall>ch \<in> set (format opts (data ! i)). P [ch]"
  shows "canvas_inv P (width opts) (height opts) (bar_label data opts i c)"
proof -
  have "canvas_inv P (width opts) (height opts)
          (fold (label_char (width opts) vy vx (format opts (data ! i)))
             [0..<length (format opts (data ! i))] c)" for vy vx
  proof (rule fold_inv [where I = "canvas_inv P (width opts) (height opts)", OF assms(1)])
    fix j c assume j: "j \<in> set [0..<length (format opts (data ! i))]"
      and c: "canvas_inv P (width opts) (height opts) c"
    from j assms(2) have "P [format opts (data ! i) ! j]" by simp
    with c show "canvas_inv P (width opts) (height opts)
        (label_char (width opts) vy vx (format opts (data ! i)) j c)"
      by (rule label_char_inv [where P = P])
  qed
  then show ?thesis using assms(1) by (simp add: bar_label_def Let_def)
qed

lemma createBarGraph_canvas_inv:
  assumes "P [SPACE]" "P [BLOCK]" "\<forall>v. \<forall>ch \<in> set (format opts v). P [ch]"
  shows "canvas_inv P (width opts) (height opts) (createBarGraph_canvas data opts)"
  unfolding createBarGraph_canvas_def
proof (rule fold_inv [where I = "canvas_inv P (width opts) (height opts)"])
  show "canvas_inv P (width opts) (height opts) (new_canvas (width opts) (height opts))"
    using assms(1) by (rule canvas_inv_new [where P = P])
next
  fix i c assume "canvas_inv P (width opts) (height opts) c"
  then have "canvas_inv P (width opts) (height opts) (fill_bar data opts i c)"
    using assms(2) by (rule fill_bar_inv [where P = P])
  then show "canvas_inv P (width opts) (height opts) (draw_bar data opts i c)"
    unfolding draw_bar_def using assms(3) by (intro bar_label_inv [where P = P]) auto
qed

subsection \<open>Joining and splitting lines\<close>




subsection \<open>The rows of the stepped renderers\<close>



















subsection \<open>The padding\<close>




subsection \<open>The value label of a bar\<close>

lemma cell_set_in_row:
  assumes row: "canvas_row c y0 = Some r" and x0: "0 \<le> x0" "x0 < int (length (elems r))"
  shows "cell (set_in_row c y0 r x0 v) y x = (if y = y0 \<and> x = x0 then Some v else cell c y x)"
proof -
  have y0: "0 \<le> y0" "nat y0 < length c" "r = c ! nat y0"
    using row by (auto dest: canvas_row_SomeD)
  show ?thesis
  proof (cases "y = y0")
    case True
    have "canvas_row (set_in_row c y0 r x0 v) y0 = Some (arr_set r x0 v)"
      using y0 by (simp add: canvas_row_def set_in_row_def)
    moreover have "arr_get (arr_set r x0 v) x = (if x = x0 then Some v else arr_get r x)"
      using x0 by (auto simp: arr_get_def arr_set_def)
    ultimately show ?thesis using True row by (simp add: cell_def)
  next
    case False
    have "canvas_row (set_in_row c y0 r x0 v) y = canvas_row c y"
    proof (cases "0 \<le> y \<and> y < int (length c)")
      case True
      with False y0 have "nat y \<noteq> nat y0" by auto
      then show ?thesis by (simp add: canvas_row_def set_in_row_def)
    next
      case False
      then show ?thesis by (auto simp: canvas_row_def set_in_row_def)
    qed
    with False show ?thesis by (simp add: cell_def)
  qed
qed

lemma canvas_inv_row:
  assumes "canvas_inv P w h c" "0 \<le> y" "y \<le> h"
  shows "\<exists>r. canvas_row c y = Some r \<and> length (elems r) = nat w"
proof -
  have "nat y < length c" using assms by (simp add: canvas_inv_def)
  then have "canvas_row c y = Some (c ! nat y)" "c ! nat y \<in> set c"
    using assms(2) by (auto simp: canvas_row_def)
  then show ?thesis using assms(1) by (auto simp: canvas_inv_def)
qed

lemma canvas_inv_no_row:
  assumes "canvas_inv P w h c" "h < y"
  shows "canvas_row c y = None"
  using assms by (auto simp: canvas_inv_def canvas_row_def)

lemma label_chars_written:
  assumes inv: "canvas_inv (\<lambda>_. True) w h c" and vy: "0 \<le> vy" "vy \<le> h" and vx: "0 \<le> vx"
    and js: "\<forall>j \<in> set js. vx + int j < w"
  shows "canvas_inv (\<lambda>_. True) w h (fold (label_char w vy vx s) js c)
       \<and> (\<forall>y x. cell (fold (label_char w vy vx s) js c) y x
             = (if y = vy \<and> (\<exists>j \<in> set js. x = vx + int j) then Some [s ! nat (x - vx)]
                else cell c y x))"
  using inv js
proof (induction js arbitrary: c)
  case Nil
  then show ?case by simp
next
  case (Cons j js)
  obtain r where r: "canvas_row c vy = Some r" "length (elems r) = nat w"
    using canvas_inv_row [OF Cons.prems(1) vy] by blast
  have jw: "vx + int j < w" using Cons.prems(2) by simp
  define c1 where "c1 = label_char w vy vx s j c"
  have c1: "c1 = set_in_row c vy r (vx + int j) [s ! j]"
    using r jw by (simp add: c1_def label_char_def)
  have inv1: "canvas_inv (\<lambda>_. True) w h c1"
    unfolding c1 using Cons.prems(1) r(1) jw by (rule canvas_inv_set_in_row) simp
  have cell1: "cell c1 y x = (if y = vy \<and> x = vx + int j then Some [s ! j] else cell c y x)"
    for y x
    unfolding c1 using r vx jw by (intro cell_set_in_row) auto
  have rest: "\<forall>j \<in> set js. vx + int j < w" using Cons.prems(2) by simp
  from Cons.IH [OF inv1 rest]
  have IH: "canvas_inv (\<lambda>_. True) w h (fold (label_char w vy vx s) js c1)"
    "\<And>y x. cell (fold (label_char w vy vx s) js c1) y x
             = (if y = vy \<and> (\<exists>j \<in> set js. x = vx + int j) then Some [s ! nat (x - vx)]
                else cell c1 y x)"
    by simp_all
  have "cell (fold (label_char w vy vx s) (j # js) c) y x
      = (if y = vy \<and> (\<exists>k \<in> set (j # js). x = vx + int k) then Some [s ! nat (x - vx)]
         else cell c y x)" for y x
    using IH(2) [of y x] cell1 [of y x] by (auto simp: c1_def)
  then show ?case using IH(1) by (simp add: c1_def)
qed

lemma label_chars_no_row:
  assumes "canvas_row c vy = None"
  shows "fold (label_char w vy vx s) js c = c"
  using assms by (induction js) (simp_all add: label_char_def)

text \<open>
  Claim C6, as stated, fails where it says that a label overflowing the right edge still
  has its in-range characters written. The first bar of the series 1000, 99999 on a
  canvas of width 4 and height 3 has height 0; its label \<open>$1000\<close> would start at column 0
  and end in column 4, off the canvas; nothing of it is written.
\<close>

theorem bar_label_overflow_counterexample:
  "barHeight [1000, 99999] 3 1000 < 3 - 1
   \<and> valueY [1000, 99999] (example_options 4 3 []) 0 = 3
   \<and> valueX [1000, 99999] (example_options 4 3 []) 0 = 0
   \<and> length (format (example_options 4 3 []) 1000) = 5
   \<and> draw_bar [1000, 99999] (example_options 4 3 []) 0 (new_canvas 4 3) = new_canvas 4 3
   \<and> cell (createBarGraph_canvas [1000, 99999] (example_options 4 3 [])) 3 0 = Some [SPACE]"
  by code_simp

text \<open>
  Claim C6, amended. In the loop body of \<open>createBarGraph\<close> for bar \<open>i\<close>, on a canvas of
  \<open>height + 1\<close> rows of \<open>width\<close> cells: when \<open>barHeight < height - 1\<close>, the row
  \<open>valueY = height - barHeight\<close> is on the canvas, and the whole label fits between column 0
  and the right edge from \<open>valueX = barStart + floor((barWidth - length) / 2)\<close> on, then
  character \<open>j\<close> of the formatted value is in cell \<open>(valueY, valueX + j)\<close> afterwards and
  every other cell is as the bar filling left it; otherwise the label is not written at
  all.
\<close>

theorem bar_label_all_or_nothing:
  assumes "canvas_inv (\<lambda>_. True) (width opts) (height opts) c"
  shows "(label_fits data opts i \<longrightarrow>
           (\<forall>j < length (format opts (data ! i)).
              cell (draw_bar data opts i c) (valueY data opts i) (valueX data opts i + int j)
                = Some [format opts (data ! i) ! j])
           \<and> (\<forall>y x. \<not> (y = valueY data opts i \<and> valueX data opts i \<le> x
                         \<and> x < valueX data opts i + int (length (format opts (data ! i))))
                 \<longrightarrow> cell (draw_bar data opts i c) y x = cell (fill_bar data opts i c) y x))
       \<and> (\<not> label_fits data opts i \<longrightarrow> draw_bar data opts i c = fill_bar data opts i c)"
proof -
  let ?s = "format opts (data ! i)"
  let ?vy = "valueY data opts i"
  let ?vx = "valueX data opts i"
  let ?c = "fill_bar data opts i c"
  have inv: "canvas_inv (\<lambda>_. True) (width opts) (height opts) ?c"
    using assms by (rule fill_bar_inv) simp
  have fits: "(\<forall>j < length ?s. cell (draw_bar data opts i c) ?vy (?vx + int j) = Some [?s ! j])
           \<and> (\<forall>y x. \<not> (y = ?vy \<and> ?vx \<le> x \<and> x < ?vx + int (length ?s))
                 \<longrightarrow> cell (draw_bar data opts i c) y x = cell ?c y x)"
    if f: "label_fits data opts i"
  proof -
    have js: "\<forall>j \<in> set [0..<length ?s]. ?vx + int j < width opts"
      using f by (auto simp: label_fits_def)
    have vy: "0 \<le> ?vy" "?vy \<le> height opts" and vx: "0 \<le> ?vx"
      using f by (auto simp: label_fits_def)
    have d: "draw_bar data opts i c = fold (label_char (width opts) ?vy ?vx ?s) [0..<length ?s] ?c"
      using f by (simp add: draw_bar_def bar_label_def label_fits_def Let_def)
    have cells: "cell (draw_bar data opts i c) y x
        = (if y = ?vy \<and> (\<exists>j \<in> set [0..<length ?s]. x = ?vx + int j)
           then Some [?s ! nat (x - ?vx)] else cell ?c y x)" for y x
      using label_chars_written [OF inv vy vx js, of ?s] unfolding d by blast
    have a: "cell (draw_bar data opts i c) ?vy (?vx + int j) = Some [?s ! j]" if "j < length ?s" for j
      using that cells [of ?vy "?vx + int j"] by auto
    have b: "cell (draw_bar data opts i c) y x = cell ?c y x"
      if "\<not> (y = ?vy \<and> ?vx \<le> x \<and> x < ?vx + int (length ?s))" for y x
    proof -
      have n: "\<not> (y = ?vy \<and> (\<exists>j \<in> set [0..<length ?s]. x = ?vx + int j))"
        using that by auto
      show ?thesis by (simp only: cells n if_False)
    qed
    from a b show ?thesis by blast
  qed
  have nofit: "draw_bar data opts i c = ?c" if nf: "\<not> label_fits data opts i"
  proof (cases "barHeight data (height opts) (data ! i) < height opts - 1
      \<and> ?vy \<ge> 0 \<and> ?vx \<ge> 0 \<and> ?vx + int (length ?s) \<le> width opts")
    case True
    with nf have "height opts < ?vy" by (simp add: label_fits_def)
    then have "canvas_row ?c ?vy = None" using inv by (intro canvas_inv_no_row)
    then show ?thesis
      using True by (simp add: draw_bar_def bar_label_def Let_def label_chars_no_row)
  next
    case False
    then show ?thesis by (auto simp: draw_bar_def bar_label_def Let_def)
  qed
  from fits nofit show ?thesis by blast
qed

theorem bar_label_all_or_nothing_witness:
  "canvas_inv (\<lambda>_. True) (width (example_options 4 3 [])) (height (example_options 4 3 []))
     (new_canvas 4 3)
   \<and> label_fits [0] (example_options 4 3 []) 0
   \<and> valueY [0] (example_options 4 3 []) 0 = 3 \<and> valueX [0] (example_options 4 3 []) 0 = 1
   \<and> format (example_options 4 3 []) ([0] ! 0) = [0x24, 0x30]
   \<and> cell (draw_bar [0] (example_options 4 3 []) 0 (new_canvas 4 3)) 3 1 = Some [0x24]
   \<and> cell (draw_bar [0] (example_options 4 3 []) 0 (new_canvas 4 3)) 3 2 = Some [0x30]
   \<and> cell (draw_bar [0] (example_options 4 3 []) 0 (new_canvas 4 3)) 3 3
       = cell (fill_bar [0] (example_options 4 3 []) 0 (new_canvas 4 3)) 3 3
   \<and> \<not> label_fits [1000, 99999] (example_options 4 3 []) 0
   \<and> draw_bar [1000, 99999] (example_options 4 3 []) 0 (new_canvas 4 3)
       = fill_bar [1000, 99999] (example_options 4 3 []) 0 (new_canvas 4 3)"
proof -
  let ?opts = "example_options 4 3 []"
  have shape: "canvas_inv (\<lambda>_. True) (width ?opts) (height ?opts) (new_canvas 4 3)"
    using canvas_inv_new [of "\<lambda>_. True" 4 3] by simp
  have fits: "label_fits [0] ?opts 0" by code_simp
  have pos: "valueY [0] ?opts 0 = 3" "valueX [0] ?opts 0 = 1"
    "format ?opts ([0] ! 0) = [0x24, 0x30]"
    by code_simp+
  have nofit: "\<not> label_fits [1000, 99999] ?opts 0" by code_simp
  note t = bar_label_all_or_nothing [OF shape, of "[0]" 0]
  note u = bar_label_all_or_nothing [OF shape, of "[1000, 99999]" 0]
  from t fits have a: "\<forall>j < length (format ?opts ([0] ! 0)).
      cell (draw_bar [0] ?opts 0 (new_canvas 4 3)) (valueY [0] ?opts 0) (valueX [0] ?opts 0 + int j)
        = Some [format ?opts ([0] ! 0) ! j]"
    by blast
  from a [rule_format, of 0] pos
  have c0: "cell (draw_bar [0] ?opts 0 (new_canvas 4 3)) 3 1 = Some [0x24]" by simp
  from a [rule_format, of 1] pos
  have c1: "cell (draw_bar [0] ?opts 0 (new_canvas 4 3)) 3 2 = Some [0x30]" by simp
  from t fits have b: "\<forall>y x. \<not> (y = valueY [0] ?opts 0 \<and> valueX [0] ?opts 0 \<le> x
        \<and> x < valueX [0] ?opts 0 + int (length (format ?opts ([0] ! 0))))
      \<longrightarrow> cell (draw_bar [0] ?opts 0 (new_canvas 4 3)) y x
          = cell (fill_bar [0] ?opts 0 (new_canvas 4 3)) y x"
    by blast
  from b [rule_format, of 3 3] pos
  have c3: "cell (draw_bar [0] ?opts 0 (new_canvas 4 3)) 3 3
       = cell (fill_bar [0] ?opts 0 (new_canvas 4 3)) 3 3"
    by simp
  from u nofit have d: "draw_bar [1000, 99999] ?opts 0 (new_canvas 4 3)
       = fill_bar [1000, 99999] ?opts 0 (new_canvas 4 3)"
    by blast
  from shape fits pos c0 c1 c3 nofit d show ?thesis by blast
qed

subsection \<open>Writes on and off the canvas\<close>

lemma combineChars_cases: "combineChars p ch = [CROSS] \<or> combineChars p ch = ch"
  by (simp add: combineChars_def Let_def)

lemma lineChar_cases:
  "lineChar dx dy sx sy \<in> {[VLINE], [HLINE], [DIAG_DOWN], [DIAG_UP]}"
  by (simp add: lineChar_def)

lemma drawLine_plot_inv:
  assumes inv: "canvas_inv P w h c" "no_stray c"
    and P: "P [VLINE]" "P [HLINE]" "P [DIAG_DOWN]" "P [DIAG_UP]" "P [CROSS]"
    and g: "drawLine_plot dx dy sx sy x y c = Inr c'"
  shows "canvas_inv P w h c' \<and> no_stray c'"
proof (cases "c' = c")
  case True
  then show ?thesis using inv by simp
next
  case False
  define ch where "ch = lineChar dx dy sx sy"
  have Pch: "P ch" using lineChar_cases [of dx dy sx sy] P by (auto simp: ch_def)
  from g False obtain row0 r where x: "0 \<le> x" and row0: "canvas_row c 0 = Some row0"
    and xw: "x < int (length (elems row0))" and r: "canvas_row c y = Some r"
    and c': "c' = set_in_row c y r x
       (if arr_get r x \<noteq> Some [SPACE] then combineChars (arr_get r x) ch else ch)"
    by (auto simp: drawLine_plot_def Let_def ch_def split: if_splits option.splits)
  have "row0 \<in> set c" using row0 by (rule canvas_row_SomeD)
  then have "length (elems row0) = nat w" using inv(1) by (simp add: canvas_inv_def)
  then have xw': "x < w" using xw x by (auto split: if_splits)
  have Pv: "P (if arr_get r x \<noteq> Some [SPACE] then combineChars (arr_get r x) ch else ch)"
    using combineChars_cases [of "arr_get r x" ch] Pch P(5) by auto
  show ?thesis
    unfolding c' using inv r xw' Pv x
    by (intro conjI canvas_inv_set_in_row no_stray_set_in_row)
qed

lemma drawLines_no_error:
  assumes "canvas_inv P w h c" "0 \<le> h"
  shows "drawLine_plot dx dy sx sy x y c \<noteq> Inl e"
proof -
  have "0 < length c" using assms by (simp add: canvas_inv_def)
  then have "canvas_row c 0 \<noteq> None" by (simp add: canvas_row_def)
  then show ?thesis
    by (auto simp: drawLine_plot_def Let_def canvas_row_def split: option.splits)
qed

lemma barStart_ge:
  assumes "2 \<le> w"
  shows "2 \<le> barStart data w i"
proof -
  have "0 \<le> real_of_int (availableWidth w) / real (length data)"
    using assms by (simp add: availableWidth_def)
  then have "0 \<le> barAreaWidth data w" by (simp add: barAreaWidth_def)
  then have "0 \<le> int i * barAreaWidth data w" by simp
  moreover have "1 \<le> spacing data w" by (simp add: spacing_def)
  ultimately show ?thesis by (simp add: barStart_def)
qed

lemma fill_bar_no_stray:
  assumes "no_stray c" "2 \<le> width opts"
  shows "no_stray (fill_bar data opts i c)"
  unfolding fill_bar_def Let_def
proof (rule fold_inv [where I = no_stray, OF assms(1)])
  fix y c assume c: "no_stray c"
  show "no_stray (fold (fill_cell (width opts) y)
          [barStart data (width opts) i..barEnd data (width opts) i - 1] c)"
  proof (rule fold_inv [where I = no_stray, OF c])
    fix x c
    assume x: "x \<in> set [barStart data (width opts) i..barEnd data (width opts) i - 1]"
      and c: "no_stray c"
    have "0 \<le> x" using x barStart_ge [OF assms(2), of data i] by simp
    then show "no_stray (fill_cell (width opts) y x c)"
      using c by (auto simp: fill_cell_def split: option.splits intro: no_stray_set_in_row)
  qed
qed

lemma bar_label_no_stray:
  assumes "no_stray c"
  shows "no_stray (bar_label data opts i c)"
proof -
  have "no_stray (fold (label_char (width opts) vy vx s) js c)" if "0 \<le> vx" for vy vx s js
  proof (rule fold_inv [where I = no_stray, OF assms])
    fix j :: nat and c assume "no_stray c"
    then show "no_stray (label_char (width opts) vy vx s j c)"
      using that by (auto simp: label_char_def split: option.splits intro: no_stray_set_in_row)
  qed
  then show ?thesis using assms by (simp add: bar_label_def Let_def)
qed

lemma createBarGraph_canvas_no_stray:
  assumes "2 \<le> width opts"
  shows "no_stray (createBarGraph_canvas data opts)"
  unfolding createBarGraph_canvas_def
proof (rule fold_inv [where I = no_stray, OF no_stray_new])
  fix i c assume "no_stray c"
  then have "no_stray (fill_bar data opts i c)" using assms by (rule fill_bar_no_stray)
  then show "no_stray (draw_bar data opts i c)"
    unfolding draw_bar_def by (rule bar_label_no_stray)
qed

lemma drawLines_on:
  assumes run: "drawLines ps c = Some r"
    and inv: "canvas_inv (\<lambda>s. length s = 1) w h c \<and> no_stray c" and h: "0 \<le> h"
  shows "\<exists>g. r = Inr g \<and> canvas_inv (\<lambda>s. length s = 1) w h g \<and> no_stray g"
  using run inv
proof (induction ps c rule: drawLines.induct)
  case (1 p1 p2 ps grid)
  let ?P = "\<lambda>s :: jsstring. length s = 1"
  let ?I = "\<lambda>c. canvas_inv ?P w h c \<and> no_stray c"
  let ?seg = "drawLine grid (fst p1) (snd p1) (fst p2) (snd p2)"
  from "1.prems"(1) obtain r1 where r1: "?seg = Some r1"
    by (cases ?seg) simp_all
  then have run1: "bresenham drawLine_plot (fst p1) (snd p1) (fst p2) (snd p2) grid = Some r1"
    by (simp add: drawLine_def)
  have "case r1 of Inl e \<Rightarrow> False | Inr c' \<Rightarrow> ?I c'"
    using run1 "1.prems"(2)
  proof (rule bresenham_partial [where I = ?I])
    show "?I c'" if "?I c" "drawLine_plot dx dy sx sy x y c = Inr c'" for dx dy sx sy x y c c'
      using drawLine_plot_inv [where P = ?P and w = w and h = h and c = c and c' = c'] that
      by simp
    show False if "?I c" "drawLine_plot dx dy sx sy x y c = Inl e" for dx dy sx sy x y c e
      using drawLines_no_error [of ?P w h c dx dy sx sy x y e] that h by simp
  qed
  then obtain g where g: "r1 = Inr g" "?I g" by (cases r1) auto
  from "1.prems"(1) r1 g(1) have "drawLines (p2 # ps) g = Some r" by simp
  from "1.IH" [OF r1 g(1) this g(2)] show ?case .
qed auto

lemma drawLines_returns:
  assumes "list_all (\<lambda>p. in_range (fst p) \<and> in_range (snd p)) ps"
  shows "\<exists>r. drawLines ps c = Some r"
  using assms
proof (induction ps c rule: drawLines.induct)
  case (1 p1 p2 ps grid)
  have "\<exists>r. bresenham drawLine_plot (fst p1) (snd p1) (fst p2) (snd p2) grid = Some r"
    using "1.prems" by (intro bresenham_returns) simp_all
  then obtain r1 where r1: "drawLine grid (fst p1) (snd p1) (fst p2) (snd p2) = Some r1"
    by (auto simp: drawLine_def)
  show ?case
  proof (cases r1)
    case (Inl e)
    then show ?thesis using r1 by simp
  next
    case (Inr g)
    from "1.IH" [OF r1 Inr] "1.prems" show ?thesis using r1 Inr by simp
  qed
qed simp_all

text \<open>
  Where the writes do stay on the canvas: in every run of \<open>drawLineGraph\<close> and of
  \<open>createLineGraph\<close> that returns, for every width and height, and in \<open>createBarGraph\<close> on
  a canvas at least two columns wide. No row is lengthened, no row gets a property at a
  negative index, and (with a canvas that has a row) nothing is thrown. The two line
  renderers return whenever the columns and rows of their points are at most \<open>2^51\<close> in
  magnitude.
\<close>

lemma writes_stay_on_canvas:
  shows "0 \<le> h \<Longrightarrow> drawLines ps (new_canvas w h) = Some r \<Longrightarrow>
            \<exists>g. r = Inr g \<and> canvas_inv (\<lambda>s. length s = 1) w h g \<and> no_stray g"
    and "createLineGraph_canvas data opts = Some r \<Longrightarrow>
            \<exists>c. r = Inr c
              \<and> canvas_inv (\<lambda>s. length s = 1) (width opts) (height opts) c \<and> no_stray c"
    and "list_all (\<lambda>p. in_range (fst p) \<and> in_range (snd p)) ps \<Longrightarrow>
            drawLines ps (new_canvas w h) \<noteq> None"
    and "points_in_range data opts \<Longrightarrow> createLineGraph data opts \<noteq> None"
    and "2 \<le> width opts \<Longrightarrow>
            canvas_inv (\<lambda>s. length s = 1) (width opts) (height opts) (createBarGraph_canvas data opts)
            \<and> no_stray (createBarGraph_canvas data opts)"
proof -
  let ?P = "\<lambda>s :: jsstring. length s = 1"
  show "\<exists>g. r = Inr g \<and> canvas_inv ?P w h g \<and> no_stray g"
    if "0 \<le> h" "drawLines ps (new_canvas w h) = Some r"
    using drawLines_on [OF that(2) _ that(1)] canvas_inv_new [where P = ?P] no_stray_new
    by simp
  show "\<exists>c. r = Inr c \<and> canvas_inv ?P (width opts) (height opts) c \<and> no_stray c"
    if "createLineGraph_canvas data opts = Some r"
    using that by (rule createLineGraph_canvas_on [where P = ?P]) simp_all
  show "drawLines ps (new_canvas w h) \<noteq> None"
    if "list_all (\<lambda>p. in_range (fst p) \<and> in_range (snd p)) ps"
    using drawLines_returns [OF that, of "new_canvas w h"] by auto
  show "createLineGraph data opts \<noteq> None" if "points_in_range data opts"
    using that by (rule createLineGraph_returns)
  show "canvas_inv ?P (width opts) (height opts) (createBarGraph_canvas data opts)
            \<and> no_stray (createBarGraph_canvas data opts)"
    if "2 \<le> width opts"
    using that createBarGraph_canvas_no_stray [of opts data]
      createBarGraph_canvas_inv [where P = ?P and opts = opts and data = data]
    by simp
qed

text \<open>
  Claim C1 at a failing input. The bar filling of \<open>createBarGraph\<close> tests \<open>x < width\<close> only.
  With width 1 the bar slots have width \<open>- 1\<close>, the fourth bar starts at column \<open>- 1\<close>,
  and the assignment \<open>canvasRow[-1] = BLOCK\<close> is executed: a write at a column that is not
  on the canvas. It raises nothing and \<open>join\<close> does not show it.
\<close>

theorem bar_fill_negative_column:
  "barStart [20, 20, 20, 20] 1 3 = - 1
   \<and> barEnd [20, 20, 20, 20] 1 3 = 0
   \<and> createBarGraph_canvas [20, 20, 20, 20] (example_options 1 1 [])
       = [\<lparr>elems = [[SPACE]], props = []\<rparr>, \<lparr>elems = [[BLOCK]], props = [(- 1, [BLOCK])]\<rparr>]
   \<and> cell (createBarGraph_canvas [20, 20, 20, 20] (example_options 1 1 [])) 1 (- 1) = Some [BLOCK]"
  by code_simp

subsection \<open>A flat series under the tight domain\<close>





















subsection \<open>Degenerate series\<close>




text \<open>
  Claim C5. Each of the three chart functions returns the empty string on the empty series,
  whatever the options are.
\<close>

theorem empty_series_renders_empty:
  "drawLineGraph [] opts = Some (Inr [])
   \<and> createLineGraph [] opts = Some (Inr [])
   \<and> createBarGraph [] opts = []"
  by (simp add: drawLineGraph_def createLineGraph_def createBarGraph_def)

subsection \<open>The x-axis label selection\<close>

text \<open>
  Claim C8. For ten data points and a graph width of 60 the label selection returns the
  indices 0, 2, 4, 6, 8, 9: at most \<open>floor(60 / 10) = 6\<close> of them, index 0 among them,
  and the last index 9 among them, since it is half a label interval (one index)
  away from the index 8 selected before it.
\<close>

theorem xaxis_selection_10_60:
  "selectedIndices 10 60 = Some [0, 2, 4, 6, 8, 9]
   \<and> int (length [0, 2, 4, 6, 8, 9 :: int]) \<le> \<lfloor>60 / (10 :: real)\<rfloor>
   \<and> pushLast 2 10 [0, 2, 4, 6, 8] = [0, 2, 4, 6, 8, 9]
   \<and> real_of_int (9 - last [0, 2, 4, 6, 8]) \<ge> real_of_int 2 / 2"
  by (simp add: selectedIndices_def pushLast_def intermediate.simps)

end
